theory Spec2Isabelle
  imports Main "HOL-Library.Word" "HOL-Library.Sublist"
begin

section \<open>The xz pixbuf loader: data model\<close>

text \<open>
  A shallow embedding of \<^verbatim>\<open>xz-pixbuf-loader.c\<close>. The loader drives three external
  libraries: liblzma (\<^verbatim>\<open>lzma_stream_decoder\<close>, \<^verbatim>\<open>lzma_code\<close>, \<^verbatim>\<open>lzma_end\<close>),
  gdk-pixbuf (\<^verbatim>\<open>gdk_pixbuf_new_from_stream\<close>) and the C allocator. None of them is
  part of the loader, so each is a parameter of the model: the decoder and the image
  decoder are fields of a record of externals, and the outcomes of \<^verbatim>\<open>malloc\<close> are read
  from a tape that is part of the state.
\<close>

type_synonym byte = "8 word"

text \<open>The constants of \<^verbatim>\<open>lzma_ret\<close> and the two \<^verbatim>\<open>lzma_action\<close> values the loader passes.\<close>

datatype lzma_ret =
    LZMA_OK | LZMA_STREAM_END | LZMA_NO_CHECK | LZMA_UNSUPPORTED_CHECK | LZMA_GET_CHECK
  | LZMA_MEM_ERROR | LZMA_MEMLIMIT_ERROR | LZMA_FORMAT_ERROR | LZMA_OPTIONS_ERROR
  | LZMA_DATA_ERROR | LZMA_BUF_ERROR | LZMA_PROG_ERROR

datatype lzma_action = LZMA_RUN | LZMA_FINISH

text \<open>
  \<^verbatim>\<open>lzma_stream\<close>: \<open>next_in\<close> is the memory \<^verbatim>\<open>next_in\<close> points to (the bytes from the
  pointer onwards), \<open>next_out\<close> is the offset of \<^verbatim>\<open>next_out\<close> inside the scratch buffer
  it always points into, \<open>internal\<close> is the engine's own state behind \<^verbatim>\<open>internal\<close>.
\<close>

record 'd lzma_stream =
  next_in :: "byte list"
  avail_in :: nat
  next_out :: nat
  avail_out :: nat
  internal :: 'd

text \<open>
  The engine behind \<^verbatim>\<open>lzma_code\<close>: from its internal state, the action, the
  \<^verbatim>\<open>avail_in\<close> readable bytes and the number \<^verbatim>\<open>avail_out\<close> of writable bytes it
  gives a return code, its next state, how many input bytes it consumed and the bytes
  it wrote.
\<close>

type_synonym 'd lzma_coder =
  "'d \<Rightarrow> lzma_action \<Rightarrow> byte list \<Rightarrow> nat \<Rightarrow> lzma_ret \<times> 'd \<times> nat \<times> byte list"

record pixbuf =
  pixbuf_width :: int
  pixbuf_height :: int

record 'd externals =
  lzma_stream_decoder :: "lzma_ret \<times> 'd"
  lzma_coder :: "'d lzma_coder"
  pixbuf_new_from_stream :: "byte list \<Rightarrow> string + pixbuf"

type_synonym funptr = nat
type_synonym gpointer = nat

text \<open>
  \<^verbatim>\<open>XZImageDecodeContext\<close>. A callback field is \<open>None\<close> for a \<^verbatim>\<open>NULL\<close> function
  pointer. \<open>memory_istream\<close> is the list of the segments added to the
  \<^verbatim>\<open>GMemoryInputStream\<close>, in order; the stream reads their concatenation. The
  \<^verbatim>\<open>error\<close> field only keeps the caller's error location, which is \<open>gerror\<close> of the
  state below.
\<close>

record 'd xz_image_decode_context =
  size_func :: "funptr option"
  updated_func :: "funptr option"
  prepare_func :: "funptr option"
  lzstream :: "'d lzma_stream"
  unxz_buffer :: "byte list"
  xz_buffer_size :: nat
  extra_context :: gpointer
  pixbuf :: "pixbuf option"
  memory_istream :: "byte list list"

text \<open>What lives on the heap, and the calls made to the caller's callbacks.\<close>

datatype resource =
    Context | Lzstream | Lzma_internal | Xz_buffer | Unxz_buffer
  | Memory_istream | Segment | Pixbuf_ref

datatype event =
    is_size_call: Size_call funptr int int
  | is_prepare_call: Prepare_call funptr pixbuf gpointer
  | is_updated_call: Updated_call funptr pixbuf int int int int gpointer

text \<open>
  The state outside the context: \<open>mallocs\<close> holds the outcomes of the coming
  \<^verbatim>\<open>malloc\<close>/\<^verbatim>\<open>calloc\<close> calls (\<open>False\<close> for \<^verbatim>\<open>NULL\<close>; an exhausted tape never
  fails), \<open>live\<close> the resources acquired and not yet released, \<open>gerror\<close> the caller's
  \<^verbatim>\<open>GError\<close>, \<open>calls\<close> the callback invocations so far, \<open>closed\<close> whether
  \<^verbatim>\<open>g_input_stream_close\<close> has run.
\<close>

record world =
  mallocs :: "bool list"
  live :: "resource list"
  gerror :: "string option"
  calls :: "event list"
  closed :: bool

text \<open>Dereferencing a context that has been freed is undefined behaviour in C.\<close>

datatype fault = Use_after_free

text \<open>
  How one turn of a loop ends: with another turn, with the loop left normally, or with
  the jump to the label \<^verbatim>\<open>failure\<close> and its message.
\<close>

datatype 's flow = Continue 's | Done 's | Failure string 's

fun payload :: "'s flow \<Rightarrow> 's" where
  "payload (Continue s) = s"
| "payload (Done s) = s"
| "payload (Failure error_message s) = s"

subsection \<open>The allocator, GLib and liblzma\<close>

definition acquire :: "resource \<Rightarrow> world \<Rightarrow> world" where
  "acquire r w = w\<lparr>live := r # live w\<rparr>"

definition release :: "resource \<Rightarrow> world \<Rightarrow> world" where
  "release r w = w\<lparr>live := remove1 r (live w)\<rparr>"

definition malloc :: "resource \<Rightarrow> world \<Rightarrow> bool \<times> world" where
  "malloc r w =
     (case mallocs w of
        [] \<Rightarrow> (True, acquire r w)
      | ok # tape \<Rightarrow> (ok, if ok then acquire r (w\<lparr>mallocs := tape\<rparr>) else w\<lparr>mallocs := tape\<rparr>))"

text \<open>The bytes of freshly allocated memory; only their number matters.\<close>

definition malloc_bytes :: "nat \<Rightarrow> byte list" where
  "malloc_bytes n = replicate n 0"

text \<open>\<^verbatim>\<open>g_set_error\<close> stores the message unless an error is already set.\<close>

definition g_set_error :: "string \<Rightarrow> world \<Rightarrow> world" where
  "g_set_error msg w = (case gerror w of None \<Rightarrow> w\<lparr>gerror := Some msg\<rparr> | Some e \<Rightarrow> w)"

text \<open>
  \<^verbatim>\<open>g_input_stream_close\<close> closes the stream; it does not drop the reference to the
  stream object, which only \<^verbatim>\<open>g_object_unref\<close> would.
\<close>

definition g_input_stream_close :: "world \<Rightarrow> world" where
  "g_input_stream_close w = w\<lparr>closed := True\<rparr>"

text \<open>\<^verbatim>\<open>lzma_end\<close> frees the engine's internal state.\<close>

definition lzma_end :: "world \<Rightarrow> world" where
  "lzma_end w = release Lzma_internal w"

text \<open>\<^verbatim>\<open>memcpy\<close> of \<open>src\<close> into \<open>buf\<close> at offset \<open>off\<close>.\<close>

definition write_at :: "byte list \<Rightarrow> nat \<Rightarrow> byte list \<Rightarrow> byte list" where
  "write_at buf off src = take off buf @ src @ drop (off + length src) buf"

text \<open>
  \<^verbatim>\<open>lzma_code(strm, action)\<close> on a stream whose \<^verbatim>\<open>next_out\<close> points into \<open>out_buf\<close>:
  the engine sees the \<^verbatim>\<open>avail_in\<close> bytes at \<^verbatim>\<open>next_in\<close>, and the four cursor fields
  move by what it consumed and wrote.
\<close>

definition lzma_code ::
  "'d lzma_coder \<Rightarrow> 'd lzma_stream \<Rightarrow> byte list \<Rightarrow> lzma_action
     \<Rightarrow> lzma_ret \<times> 'd lzma_stream \<times> byte list" where
  "lzma_code coder strm out_buf action =
     (case coder (internal strm) action (take (avail_in strm) (next_in strm)) (avail_out strm) of
        (lzret, d, k, out) \<Rightarrow>
          (lzret,
           strm\<lparr>next_in := drop k (next_in strm), avail_in := avail_in strm - k,
                next_out := next_out strm + length out,
                avail_out := avail_out strm - length out, internal := d\<rparr>,
           write_at out_buf (next_out strm) out))"

section \<open>The incremental loader\<close>

text \<open>
  The code after the label \<^verbatim>\<open>failure\<close> of \<^verbatim>\<open>gdk_pixbuf__begin_load_xz_image\<close>, for a
  context that was allocated: the \<^verbatim>\<open>lzma_stream\<close> is freed if there is one, then the
  context. The scratch buffer and the memory stream do not exist yet at any jump to the
  label.
\<close>

definition begin_load_failure :: "string \<Rightarrow> bool \<Rightarrow> world \<Rightarrow> world" where
  "begin_load_failure error_message has_lzstream w =
     release Context
       ((if has_lzstream then release Lzstream else id) (g_set_error error_message w))"

text \<open>\<^verbatim>\<open>gdk_pixbuf__begin_load_xz_image\<close>; the result is \<open>None\<close> for \<^verbatim>\<open>NULL\<close>.\<close>

definition gdk_pixbuf__begin_load_xz_image ::
  "'d externals \<Rightarrow> funptr option \<Rightarrow> funptr option \<Rightarrow> funptr option \<Rightarrow> gpointer \<Rightarrow> world
     \<Rightarrow> 'd xz_image_decode_context option \<times> world" where
  "gdk_pixbuf__begin_load_xz_image E size_f prepare_f updated_f extra w =
     (case malloc Context w of (got_context, w1) \<Rightarrow>
        if \<not> got_context then (None, g_set_error ''Error allocating decode context'' w1)
        else (case malloc Lzstream w1 of (got_lzstream, w2) \<Rightarrow>
          if \<not> got_lzstream
          then (None, begin_load_failure ''Error allocating lzma stream in context'' False w2)
          else (case lzma_stream_decoder E of (lzret, d) \<Rightarrow>
            if lzret \<noteq> LZMA_OK
            then (None, begin_load_failure ''Could not create lzma_stream_decoder'' True w2)
            else (case malloc Unxz_buffer (acquire Lzma_internal w2) of (got_buffer, w3) \<Rightarrow>
              if \<not> got_buffer
              then (None, begin_load_failure ''Could not create xz buffers'' True w3)
              else
                (Some \<lparr>size_func = size_f, updated_func = updated_f, prepare_func = prepare_f,
                       lzstream = \<lparr>next_in = [], avail_in = 0, next_out = 0,
                                   avail_out = 2 ^ 16, internal = d\<rparr>,
                       unxz_buffer = malloc_bytes (2 ^ 16), xz_buffer_size = 2 ^ 16,
                       extra_context = extra, pixbuf = None, memory_istream = []\<rparr>,
                 acquire Memory_istream w3)))))"

text \<open>
  One turn of the \<^verbatim>\<open>do ... while\<close> loop of \<^verbatim>\<open>_gdk_pixbuf__lzma_code\<close>: the call of
  \<^verbatim>\<open>lzma_code\<close>, the copy of the filled part of the scratch buffer into a new segment,
  the reset of the output window, and the loop test. The sizes are \<^verbatim>\<open>size_t\<close> values,
  here natural numbers: \<open>xz_buffer_size - avail_out\<close> is the C difference as long as
  \<^verbatim>\<open>avail_out\<close> is at most the buffer size, and \<^verbatim>\<open>malloc\<close> of that size, which may
  be 0, succeeds or fails as the tape says.
\<close>

definition lzma_code_turn ::
  "'d externals \<Rightarrow> lzma_action \<Rightarrow> 'd xz_image_decode_context \<times> world \<Rightarrow> ('d xz_image_decode_context \<times> world) flow" where
  "lzma_code_turn E lzaction cw =
     (case cw of (c, w) \<Rightarrow>
      (case lzma_code (lzma_coder E) (lzstream c) (unxz_buffer c) lzaction of
        (lzret, strm, buf) \<Rightarrow>
          let c1 = c\<lparr>lzstream := strm, unxz_buffer := buf\<rparr> in
          if lzret = LZMA_OK \<or> lzret = LZMA_STREAM_END then
            (let mem_buffer_size = xz_buffer_size c1 - avail_out (lzstream c1) in
             case malloc Segment w of (got, w1) \<Rightarrow>
               if \<not> got then Failure ''Error allocating buffer'' (c1, w1)
               else
                 (let mem_buffer = take mem_buffer_size (unxz_buffer c1);
                      c2 = c1\<lparr>memory_istream := memory_istream c1 @ [mem_buffer],
                              lzstream := (lzstream c1)\<lparr>avail_out := xz_buffer_size c1,
                                                        next_out := 0\<rparr>\<rparr>
                  in if avail_in (lzstream c2) \<noteq> 0 then Continue (c2, w1) else Done (c2, w1)))
          else Failure ''Error with lzma decode'' (c1, w)))"

text \<open>
  The loop. Nothing in the loader bounds the number of turns: a decoder that returns
  \<^verbatim>\<open>LZMA_OK\<close> without consuming input keeps it running, and then the result is \<open>None\<close>.
\<close>

partial_function (option) lzma_code_loop ::
  "'d externals \<Rightarrow> lzma_action \<Rightarrow> 'd xz_image_decode_context \<times> world \<Rightarrow> (bool \<times> 'd xz_image_decode_context \<times> world) option" where
  "lzma_code_loop E lzaction cw =
     (case lzma_code_turn E lzaction cw of
        Continue cw' \<Rightarrow> lzma_code_loop E lzaction cw'
      | Done cw' \<Rightarrow> Some (True, cw')
      | Failure error_message cw' \<Rightarrow>
          Some (False, fst cw', g_set_error error_message (snd cw')))"

declare lzma_code_loop.simps [code]

text \<open>\<^verbatim>\<open>_gdk_pixbuf__lzma_code\<close>, with the chunk \<open>(buf, size)\<close> as the byte list \<open>buf\<close>.\<close>

definition gdk_pixbuf__lzma_code ::
  "'d externals \<Rightarrow> 'd xz_image_decode_context \<Rightarrow> byte list \<Rightarrow> lzma_action \<Rightarrow> world
     \<Rightarrow> (bool \<times> 'd xz_image_decode_context \<times> world) option" where
  "gdk_pixbuf__lzma_code E c buf lzaction w =
     lzma_code_loop E lzaction
       (c\<lparr>lzstream := (lzstream c)\<lparr>next_in := buf, avail_in := length buf\<rparr>\<rparr>, w)"

text \<open>
  \<^verbatim>\<open>gdk_pixbuf__load_xz_image_increment\<close>. The context pointer is dereferenced, which
  is defined only while the context is allocated; on a freed context the result is the
  fault.
\<close>

definition gdk_pixbuf__load_xz_image_increment ::
  "'d externals \<Rightarrow> 'd xz_image_decode_context \<Rightarrow> byte list \<Rightarrow> world
     \<Rightarrow> (fault + bool \<times> 'd xz_image_decode_context \<times> world) option" where
  "gdk_pixbuf__load_xz_image_increment E c buf w =
     (if Context \<notin> set (live w) then Some (Inl Use_after_free)
      else map_option Inr (gdk_pixbuf__lzma_code E c buf LZMA_RUN w))"

text \<open>
  The two guarded callback invocations of \<^verbatim>\<open>gdk_pixbuf__stop_load_xz_image\<close>: each
  is made only if there is a decoded image and the function pointer is not \<^verbatim>\<open>NULL\<close>.
\<close>

definition run_callbacks :: "'d xz_image_decode_context \<Rightarrow> world \<Rightarrow> world" where
  "run_callbacks c w =
     (let w1 = (case (pixbuf c, prepare_func c) of
                  (Some p, Some f) \<Rightarrow> w\<lparr>calls := calls w @ [Prepare_call f p (extra_context c)]\<rparr>
                | _ \<Rightarrow> w)
      in (case (pixbuf c, updated_func c) of
            (Some p, Some f) \<Rightarrow>
              w1\<lparr>calls := calls w1 @
                    [Updated_call f p 0 0 (pixbuf_width p) (pixbuf_height p) (extra_context c)]\<rparr>
          | _ \<Rightarrow> w1))"

text \<open>
  \<^verbatim>\<open>gdk_pixbuf__stop_load_xz_image\<close>. The context is freed at the end, so only the
  return value and the state outside the context remain.
\<close>

definition gdk_pixbuf__stop_load_xz_image ::
  "'d externals \<Rightarrow> 'd xz_image_decode_context \<Rightarrow> world \<Rightarrow> (fault + bool \<times> world) option" where
  "gdk_pixbuf__stop_load_xz_image E c w =
     (if Context \<notin> set (live w) then Some (Inl Use_after_free)
      else
        (case gdk_pixbuf__lzma_code E c [] LZMA_FINISH w of
           None \<Rightarrow> None
         | Some (ret, c1, w1) \<Rightarrow>
             let w2 = lzma_end w1;
                 decoded = pixbuf_new_from_stream E (concat (memory_istream c1));
                 c2 = c1\<lparr>pixbuf := (case decoded of Inl msg \<Rightarrow> None | Inr p \<Rightarrow> Some p)\<rparr>;
                 w3 = (case decoded of Inl msg \<Rightarrow> g_set_error msg w2
                                     | Inr p \<Rightarrow> acquire Pixbuf_ref w2);
                 ret1 = (if pixbuf c2 = None then False else ret);
                 w4 = g_input_stream_close w3;
                 w5 = run_callbacks c2 w4;
                 w6 = (if pixbuf c2 = None then w5 else release Pixbuf_ref w5)
             in Some (Inr (ret1, release Context (release Unxz_buffer (release Lzstream w6))))))"

text \<open>
  How the host drives the module: after \<^verbatim>\<open>begin_load\<close> it passes the chunks in order
  to \<^verbatim>\<open>load_increment\<close> and stops at the first one that is refused. The result is
  that of the last call made.
\<close>

fun push_chunks ::
  "'d externals \<Rightarrow> 'd xz_image_decode_context \<Rightarrow> byte list list \<Rightarrow> world
     \<Rightarrow> (fault + bool \<times> 'd xz_image_decode_context \<times> world) option" where
  "push_chunks E c [] w = Some (Inr (True, c, w))"
| "push_chunks E c (buf # bufs) w =
     (case gdk_pixbuf__load_xz_image_increment E c buf w of
        None \<Rightarrow> None
      | Some (Inl f) \<Rightarrow> Some (Inl f)
      | Some (Inr (ok, c1, w1)) \<Rightarrow>
          if ok then push_chunks E c1 bufs w1 else Some (Inr (False, c1, w1)))"

section \<open>The one-shot loader\<close>

text \<open>
  A \<^verbatim>\<open>FILE\<close>: the bytes not read yet, whether the device fails when they run out
  (instead of reporting the end of the file), and the two indicators read by
  \<^verbatim>\<open>feof\<close> and \<^verbatim>\<open>ferror\<close>. \<^verbatim>\<open>fread\<close> sets an indicator only when it returns fewer
  bytes than it was asked for.
\<close>

record FILE =
  unread :: "byte list"
  faulty :: bool
  feof :: bool
  ferror :: bool

definition fread :: "nat \<Rightarrow> FILE \<Rightarrow> byte list \<times> FILE" where
  "fread n f =
     (let got = take n (unread f)
      in (got, f\<lparr>unread := drop n (unread f),
                 feof := feof f \<or> (length got < n \<and> \<not> faulty f),
                 ferror := ferror f \<or> (length got < n \<and> faulty f)\<rparr>))"

text \<open>The local variables of \<^verbatim>\<open>gdk_pixbuf__load_xz_image\<close> that the loop works on.\<close>

record 'd load_locals =
  ld_file :: FILE
  ld_lzaction :: lzma_action
  ld_lzstream :: "'d lzma_stream"
  ld_xz_buffer :: "byte list"
  ld_unxz_buffer :: "byte list"
  ld_memory_istream :: "byte list list"

text \<open>Lines 105 to 118: refill the input buffer; \<open>Inl\<close> is the jump to \<^verbatim>\<open>failure\<close>.\<close>

definition load_read :: "nat \<Rightarrow> 'd load_locals \<Rightarrow> 'd load_locals + 'd load_locals" where
  "load_read buffer_size l =
     (if avail_in (ld_lzstream l) = 0 \<and> \<not> feof (ld_file l) then
        (case fread buffer_size (ld_file l) of (got, f) \<Rightarrow>
           let bytes_read = length got;
               l1 = l\<lparr>ld_file := f, ld_xz_buffer := write_at (ld_xz_buffer l) 0 got\<rparr>
           in if bytes_read < buffer_size \<and> ferror f then Inl l1
              else Inr (l1\<lparr>ld_lzstream := (ld_lzstream l1)\<lparr>next_in := ld_xz_buffer l1,
                                                             avail_in := bytes_read\<rparr>,
                            ld_lzaction := (if feof f then LZMA_FINISH else ld_lzaction l1)\<rparr>))
      else Inr l)"

text \<open>Lines 122 to 133: move the filled scratch buffer into a new segment.\<close>

definition load_drain ::
  "nat \<Rightarrow> lzma_ret \<Rightarrow> 'd load_locals \<times> world \<Rightarrow> ('d load_locals \<times> world) + ('d load_locals \<times> world)" where
  "load_drain buffer_size lzret lw =
     (case lw of (l, w) \<Rightarrow>
        if avail_out (ld_lzstream l) = 0 \<or> lzret = LZMA_STREAM_END then
          (let mem_buffer_size = buffer_size - avail_out (ld_lzstream l) in
           case malloc Segment w of (got, w1) \<Rightarrow>
             if \<not> got then Inl (l, w1)
             else Inr (l\<lparr>ld_memory_istream :=
                            ld_memory_istream l @ [take mem_buffer_size (ld_unxz_buffer l)],
                          ld_lzstream := (ld_lzstream l)\<lparr>next_out := 0,
                                                         avail_out := buffer_size\<rparr>\<rparr>, w1))
        else Inr (l, w))"

text \<open>One turn of the \<^verbatim>\<open>while (TRUE)\<close> loop.\<close>

definition load_turn ::
  "'d externals \<Rightarrow> nat \<Rightarrow> 'd load_locals \<times> world \<Rightarrow> ('d load_locals \<times> world) flow" where
  "load_turn E buffer_size lw =
     (case lw of (l, w) \<Rightarrow>
        (case load_read buffer_size l of
           Inl l1 \<Rightarrow> Failure ''Error reading file with fread'' (l1, w)
         | Inr l1 \<Rightarrow>
             (case lzma_code (lzma_coder E) (ld_lzstream l1) (ld_unxz_buffer l1) (ld_lzaction l1) of
                (lzret, strm, buf) \<Rightarrow>
                  (case load_drain buffer_size lzret
                          (l1\<lparr>ld_lzstream := strm, ld_unxz_buffer := buf\<rparr>, w) of
                     Inl lw2 \<Rightarrow> Failure ''Error allocating memory'' lw2
                   | Inr lw2 \<Rightarrow>
                       if lzret \<noteq> LZMA_OK then
                         (if lzret = LZMA_STREAM_END then Done lw2
                          else Failure ''Some LZMA error occurred'' lw2)
                       else Continue lw2))))"

partial_function (option) load_loop ::
  "'d externals \<Rightarrow> nat \<Rightarrow> 'd load_locals \<times> world \<Rightarrow> (string option \<times> 'd load_locals \<times> world) option" where
  "load_loop E buffer_size lw =
     (case load_turn E buffer_size lw of
        Continue lw' \<Rightarrow> load_loop E buffer_size lw'
      | Done lw' \<Rightarrow> Some (None, lw')
      | Failure error_message lw' \<Rightarrow> Some (Some error_message, lw'))"

declare load_loop.simps [code]

text \<open>
  The code after the label \<^verbatim>\<open>failure\<close>: each buffer is freed if it was allocated,
  the \<^verbatim>\<open>lzma_stream\<close> is freed, the memory stream is closed. \<^verbatim>\<open>lzma_end\<close> is not
  called there.
\<close>

definition load_failure :: "string \<Rightarrow> bool \<Rightarrow> bool \<Rightarrow> bool \<Rightarrow> bool \<Rightarrow> world \<Rightarrow> world" where
  "load_failure error_message has_xz has_unxz has_lzstream has_istream w =
     (let w1 = g_set_error error_message w;
          w2 = (if has_xz then release Xz_buffer w1 else w1);
          w3 = (if has_unxz then release Unxz_buffer w2 else w2);
          w4 = (if has_lzstream then release Lzstream w3 else w3)
      in if has_istream then g_input_stream_close w4 else w4)"

text \<open>
  \<^verbatim>\<open>gdk_pixbuf__load_xz_image\<close>, with the size of the two buffers as a parameter; the
  loader itself is \<open>gdk_pixbuf__load_xz_image\<close> below, with \<^verbatim>\<open>1 << 20\<close>.
\<close>

definition load_xz_image_sized ::
  "'d externals \<Rightarrow> nat \<Rightarrow> FILE \<Rightarrow> world \<Rightarrow> (pixbuf option \<times> world) option" where
  "load_xz_image_sized E buffer_size f w =
     (case malloc Lzstream w of (got_lzstream, w1) \<Rightarrow>
        if \<not> got_lzstream
        then Some (None, load_failure ''Failed to allocate lzma_stream'' False False False False w1)
        else (case lzma_stream_decoder E of (lzret, d) \<Rightarrow>
          if lzret \<noteq> LZMA_OK
          then Some (None,
                 load_failure ''Could not create lzma_stream_decoder'' False False True False w1)
          else (case malloc Xz_buffer (acquire Lzma_internal w1) of (got_xz, w2) \<Rightarrow>
               (case malloc Unxz_buffer w2 of (got_unxz, w3) \<Rightarrow>
            if \<not> got_xz \<or> \<not> got_unxz
            then Some (None,
                   load_failure ''Could not allocate xz data buffers'' got_xz got_unxz True False w3)
            else
              (case load_loop E buffer_size
                      (\<lparr>ld_file = f, ld_lzaction = LZMA_RUN,
                        ld_lzstream = \<lparr>next_in = [], avail_in = 0, next_out = 0,
                                       avail_out = buffer_size, internal = d\<rparr>,
                        ld_xz_buffer = malloc_bytes buffer_size,
                        ld_unxz_buffer = malloc_bytes buffer_size,
                        ld_memory_istream = []\<rparr>,
                       acquire Memory_istream w3) of
                 None \<Rightarrow> None
               | Some (Some error_message, l, w4) \<Rightarrow>
                   Some (None, load_failure error_message True True True True w4)
               | Some (None, l, w4) \<Rightarrow>
                   (case pixbuf_new_from_stream E (concat (ld_memory_istream l)) of
                      Inl msg \<Rightarrow>
                        Some (None,
                          load_failure ''Could not create pixbuf from memory stream''
                            True True True True (g_set_error msg w4))
                    | Inr p \<Rightarrow>
                        Some (Some p,
                          release Unxz_buffer (release Xz_buffer (release Lzstream
                            (lzma_end (g_input_stream_close (acquire Pixbuf_ref w4))))))))))))"

definition gdk_pixbuf__load_xz_image ::
  "'d externals \<Rightarrow> FILE \<Rightarrow> world \<Rightarrow> (pixbuf option \<times> world) option" where
  "gdk_pixbuf__load_xz_image E f w = load_xz_image_sized E (2 ^ 20) f w"

section \<open>A small decoder to run the loader on\<close>

text \<open>
  A stored format, one byte a call: a byte from 1 to 254 is copied to the output, 0
  ends a stream, 255 is not valid. Its state is the input consumed and the output
  written so far.
\<close>

definition toy_coder :: "(byte list \<times> byte list) lzma_coder" where
  "toy_coder d action inp n =
     (case inp of
        [] \<Rightarrow> (if action = LZMA_FINISH then LZMA_STREAM_END else LZMA_OK, d, 0, [])
      | b # rest \<Rightarrow>
          if b = 255 then (LZMA_DATA_ERROR, d, 0, [])
          else if b = 0 then (LZMA_STREAM_END, (fst d @ [b], snd d), 1, [])
          else if n = 0 then (LZMA_OK, d, 0, [])
          else (LZMA_OK, (fst d @ [b], snd d @ [b]), 1, [b]))"

text \<open>An image decoder that accepts any non-empty input as an image one pixel high.\<close>

definition toy_externals :: "(byte list \<times> byte list) externals" where
  "toy_externals =
     \<lparr>lzma_stream_decoder = (LZMA_OK, ([], [])), lzma_coder = toy_coder,
      pixbuf_new_from_stream =
        (\<lambda>bytes. if bytes = [] then Inl ''Image file is empty''
                 else Inr \<lparr>pixbuf_width = int (length bytes), pixbuf_height = 1\<rparr>)\<rparr>"

definition empty_world :: world where
  "empty_world = \<lparr>mallocs = [], live = [], gerror = None, calls = [], closed = False\<rparr>"

text \<open>A context as \<^verbatim>\<open>begin_load\<close> leaves it, with a scratch buffer of four bytes.\<close>

definition small_context :: "(byte list \<times> byte list) xz_image_decode_context" where
  "small_context =
     \<lparr>size_func = Some 1, updated_func = Some 2, prepare_func = Some 3,
      lzstream = \<lparr>next_in = [], avail_in = 0, next_out = 0, avail_out = 4, internal = ([], [])\<rparr>,
      unxz_buffer = [0, 0, 0, 0], xz_buffer_size = 4, extra_context = 7, pixbuf = None,
      memory_istream = []\<rparr>"

definition small_world :: world where
  "small_world =
     \<lparr>mallocs = [], live = [Memory_istream, Unxz_buffer, Lzma_internal, Lzstream, Context],
      gerror = None, calls = [], closed = False\<rparr>"

text \<open>The states used in the examples below, written out.\<close>

definition loaded_context :: "(byte list \<times> byte list) xz_image_decode_context" where
  "loaded_context =
     small_context\<lparr>lzstream := \<lparr>next_in = [], avail_in = 0, next_out = 0, avail_out = 4,
                                 internal = ([1, 2], [1, 2])\<rparr>,
                   unxz_buffer := [2, 0, 0, 0], memory_istream := [[1], [2]]\<rparr>"

definition loaded_world :: world where
  "loaded_world = small_world\<lparr>live := Segment # Segment # live small_world\<rparr>"

definition stopped_world :: world where
  "stopped_world =
     \<lparr>mallocs = [], live = [Segment, Segment, Segment, Memory_istream], gerror = None,
      calls = [Prepare_call 3 \<lparr>pixbuf_width = 2, pixbuf_height = 1\<rparr> 7,
               Updated_call 2 \<lparr>pixbuf_width = 2, pixbuf_height = 1\<rparr> 0 0 2 1 7],
      closed = True\<rparr>"

definition ended_world :: world where
  "ended_world = small_world\<lparr>live := Segment # live small_world\<rparr>"

definition corrupt_file :: FILE where
  "corrupt_file = \<lparr>unread = [255], faulty = False, feof = False, ferror = False\<rparr>"

definition good_file :: FILE where
  "good_file = \<lparr>unread = [7, 8], faulty = False, feof = False, ferror = False\<rparr>"

text \<open>
  The local variables of the one-shot loader as the loop finds them, with buffers of
  four bytes.
\<close>

definition small_locals :: "(byte list \<times> byte list) load_locals" where
  "small_locals =
     \<lparr>ld_file = good_file, ld_lzaction = LZMA_RUN,
      ld_lzstream = \<lparr>next_in = [], avail_in = 0, next_out = 0, avail_out = 4, internal = ([], [])\<rparr>,
      ld_xz_buffer = malloc_bytes 4, ld_unxz_buffer = malloc_bytes 4, ld_memory_istream = []\<rparr>"

section \<open>A decoder that answers as a concatenated stream decoder\<close>

text \<open>
  The loader creates its decoder with \<^verbatim>\<open>LZMA_CONCATENATED\<close>. This second decoder
  follows what \<^verbatim>\<open>lzma/base.h\<close> documents for \<^verbatim>\<open>lzma_code\<close> in that mode. The format
  is the stored one of above: a byte from 1 to 254 is copied to the output, 0 ends a
  stream, 255 is not valid; one byte is taken a call. The end of a stream under
  \<^verbatim>\<open>LZMA_RUN\<close> is answered with \<^verbatim>\<open>LZMA_OK\<close>, and another stream may follow;
  \<^verbatim>\<open>LZMA_STREAM_END\<close> is returned only under \<^verbatim>\<open>LZMA_FINISH\<close>, when no input is left
  and the last stream is complete, and from then on. A call that can neither consume
  nor write is answered with \<^verbatim>\<open>LZMA_OK\<close> the first time and with \<^verbatim>\<open>LZMA_BUF_ERROR\<close>
  when the call before it was such a call too. After \<^verbatim>\<open>LZMA_FINISH\<close> any other
  action is answered with \<^verbatim>\<open>LZMA_PROG_ERROR\<close>, and so is every call after an error
  in the data.
\<close>

datatype phase = Running | Finishing | Ended | Broken

record framed =
  eaten :: "byte list"
  given :: "byte list"
  idle :: bool
  phase :: phase

definition framed_coder :: "framed lzma_coder" where
  "framed_coder d action inp n =
     (if phase d = Broken \<or> (phase d = Finishing \<and> action \<noteq> LZMA_FINISH)
      then (LZMA_PROG_ERROR, d, 0, [])
      else if phase d = Ended then (LZMA_STREAM_END, d, 0, [])
      else
        (let d1 = (if action = LZMA_FINISH then d\<lparr>phase := Finishing\<rparr> else d);
             stalled = (if idle d then (LZMA_BUF_ERROR, d1, 0, [])
                        else (LZMA_OK, d1\<lparr>idle := True\<rparr>, 0, []))
         in case inp of
              [] \<Rightarrow>
                if action = LZMA_FINISH \<and> eaten d \<noteq> [] \<and> last (eaten d) = 0
                then (LZMA_STREAM_END, d1\<lparr>idle := False, phase := Ended\<rparr>, 0, [])
                else stalled
            | b # rest \<Rightarrow>
                if b = 255 then (LZMA_DATA_ERROR, d1\<lparr>phase := Broken\<rparr>, 0, [])
                else if b = 0 then (LZMA_OK, d1\<lparr>eaten := eaten d @ [b], idle := False\<rparr>, 1, [])
                else if n = 0 then stalled
                else (LZMA_OK,
                      d1\<lparr>eaten := eaten d @ [b], given := given d @ [b], idle := False\<rparr>,
                      1, [b])))"

definition framed_start :: framed where
  "framed_start = \<lparr>eaten = [], given = [], idle = False, phase = Running\<rparr>"

definition framed_externals :: "framed externals" where
  "framed_externals =
     \<lparr>lzma_stream_decoder = (LZMA_OK, framed_start), lzma_coder = framed_coder,
      pixbuf_new_from_stream =
        (\<lambda>bytes. if bytes = [] then Inl ''Image file is empty''
                 else Inr \<lparr>pixbuf_width = int (length bytes), pixbuf_height = 1\<rparr>)\<rparr>"

text \<open>
  A context as \<^verbatim>\<open>begin_load\<close> leaves it, with a scratch buffer of four bytes; the
  context and the world after the chunk \<open>[1, 0]\<close>, a whole stream; and the context and
  the world after the chunk \<open>[1, 2, 0, 255]\<close>, a whole stream followed by a byte that
  is not valid.
\<close>

definition framed_context :: "framed xz_image_decode_context" where
  "framed_context =
     \<lparr>size_func = Some 1, updated_func = Some 2, prepare_func = Some 3,
      lzstream = \<lparr>next_in = [], avail_in = 0, next_out = 0, avail_out = 4,
                  internal = framed_start\<rparr>,
      unxz_buffer = [0, 0, 0, 0], xz_buffer_size = 4, extra_context = 7, pixbuf = None,
      memory_istream = []\<rparr>"



definition garbled_context :: "framed xz_image_decode_context" where
  "garbled_context =
     framed_context\<lparr>lzstream := \<lparr>next_in = [255], avail_in = 1, next_out = 0, avail_out = 4,
                                  internal = \<lparr>eaten = [1, 2, 0], given = [1, 2], idle = False,
                                              phase = Broken\<rparr>\<rparr>,
                    unxz_buffer := [2, 0, 0, 0], memory_istream := [[1], [2], []]\<rparr>"

definition garbled_world :: world where
  "garbled_world =
     small_world\<lparr>live := Segment # Segment # Segment # live small_world,
                 gerror := Some ''Error with lzma decode''\<rparr>"

section \<open>Notions used to state the properties\<close>

text \<open>
  What a step of the incremental loader leaves alone: the callbacks and the caller's
  pointer, the size of the scratch buffer, the decoded image, the callback
  invocations, the closed flag, and every resource but the segments.
\<close>

definition same_session ::
  "'d xz_image_decode_context \<times> world \<Rightarrow> 'd xz_image_decode_context \<times> world \<Rightarrow> bool" where
  "same_session x y \<longleftrightarrow>
     size_func (fst y) = size_func (fst x) \<and> updated_func (fst y) = updated_func (fst x) \<and>
     prepare_func (fst y) = prepare_func (fst x) \<and> extra_context (fst y) = extra_context (fst x) \<and>
     xz_buffer_size (fst y) = xz_buffer_size (fst x) \<and> pixbuf (fst y) = pixbuf (fst x) \<and>
     calls (snd y) = calls (snd x) \<and> closed (snd y) = closed (snd x) \<and>
     filter (\<lambda>r. r \<noteq> Segment) (live (snd y)) = filter (\<lambda>r. r \<noteq> Segment) (live (snd x))"

text \<open>
  The contract of \<^verbatim>\<open>lzma_code\<close> on its buffers: it reads no more than \<^verbatim>\<open>avail_in\<close>
  bytes and writes no more than \<^verbatim>\<open>avail_out\<close>.
\<close>

definition coder_bounded :: "'d lzma_coder \<Rightarrow> bool" where
  "coder_bounded coder \<longleftrightarrow>
     (\<forall>d action inp n. case coder d action inp n of
        (lzret, d', k, out) \<Rightarrow> k \<le> length inp \<and> length out \<le> n)"

text \<open>
  The output window: the write cursor \<open>next_out\<close> and the room left \<open>avail_out\<close> add
  up to the capacity of the scratch buffer. \<open>written\<close> is the part of the buffer below
  the cursor, the bytes written since the window was last reset.
\<close>

definition window_ok :: "'d lzma_stream \<Rightarrow> byte list \<Rightarrow> nat \<Rightarrow> bool" where
  "window_ok strm buf cap \<longleftrightarrow> next_out strm + avail_out strm = cap \<and> length buf = cap"

definition written :: "'d lzma_stream \<Rightarrow> byte list \<Rightarrow> byte list" where
  "written strm buf = take (next_out strm) buf"

text \<open>
  The contexts an incremental session can be in: the one \<^verbatim>\<open>begin_load\<close> returns, a
  context whose input has been pointed at a new chunk, and the context after any turn
  of the loop, however the turn ends.
\<close>

inductive reachable :: "'d externals \<Rightarrow> 'd xz_image_decode_context \<Rightarrow> bool" for E where
  reach_begin:
    "gdk_pixbuf__begin_load_xz_image E sf pf uf x w = (Some c, w') \<Longrightarrow> reachable E c"
| reach_feed:
    "reachable E c \<Longrightarrow>
       reachable E (c\<lparr>lzstream := (lzstream c)\<lparr>next_in := buf, avail_in := length buf\<rparr>\<rparr>)"
| reach_turn:
    "reachable E c \<Longrightarrow> payload (lzma_code_turn E a (c, w)) = (c', w') \<Longrightarrow> reachable E c'"

text \<open>The same for the local variables of the one-shot loader.\<close>

inductive load_reachable :: "'d externals \<Rightarrow> nat \<Rightarrow> 'd load_locals \<Rightarrow> bool" for E n where
  reach_start:
    "load_reachable E n
       \<lparr>ld_file = f, ld_lzaction = LZMA_RUN,
        ld_lzstream = \<lparr>next_in = [], avail_in = 0, next_out = 0, avail_out = n, internal = d\<rparr>,
        ld_xz_buffer = malloc_bytes n, ld_unxz_buffer = malloc_bytes n,
        ld_memory_istream = []\<rparr>"
| reach_load_turn:
    "load_reachable E n l \<Longrightarrow> payload (load_turn E n (l, w)) = (l', w') \<Longrightarrow> load_reachable E n l'"

text \<open>
  What it means that a decoder decodes the stream \<open>s\<close> to the bytes \<open>p\<close>, in the
  calls the incremental loader makes when it is given \<open>s\<close> in non-empty chunks and
  then stopped. The decoder is observed through the input it has consumed (\<open>fed\<close>) and
  the output it has written (\<open>emitted\<close>) so far, on the states that satisfy \<open>good\<close>.
  These calls are of two kinds, both with the whole scratch buffer of \<open>cap\<close> bytes as
  room for the output. A call with \<^verbatim>\<open>LZMA_RUN\<close> and input that is not empty and lies
  along \<open>s\<close>: the decoder stays within its buffers, consumes and writes what \<open>fed\<close> and
  \<open>emitted\<close> record, reports no error, makes progress, and is left in a good state. And
  the one call with \<^verbatim>\<open>LZMA_FINISH\<close> and no input, made when all of \<open>s\<close> has been
  consumed: the decoder reports no error and writes nothing beyond \<open>p\<close>. Nothing is
  asked of any other call, nor of the state after the call with \<^verbatim>\<open>LZMA_FINISH\<close>.
  In a good state what has been written is a prefix of \<open>p\<close>, and all of \<open>p\<close> once all
  of \<open>s\<close> has been consumed.
\<close>

definition decodes ::
  "'d lzma_coder \<Rightarrow> ('d \<Rightarrow> byte list) \<Rightarrow> ('d \<Rightarrow> byte list) \<Rightarrow> ('d \<Rightarrow> bool)
     \<Rightarrow> nat \<Rightarrow> byte list \<Rightarrow> byte list \<Rightarrow> bool" where
  "decodes coder fed emitted good cap s p \<longleftrightarrow>
     (\<forall>d. good d \<longrightarrow> prefix (emitted d) p \<and> (fed d = s \<longrightarrow> emitted d = p)) \<and>
     (\<forall>d inp. good d \<and> inp \<noteq> [] \<and> prefix (fed d @ inp) s \<longrightarrow>
        (case coder d LZMA_RUN inp cap of
           (lzret, d', k, out) \<Rightarrow>
             good d' \<and> k \<le> length inp \<and> length out \<le> cap \<and>
             fed d' = fed d @ take k inp \<and> emitted d' = emitted d @ out \<and>
             (lzret = LZMA_OK \<or> lzret = LZMA_STREAM_END) \<and> (0 < k \<or> out \<noteq> []))) \<and>
     (\<forall>d. good d \<and> fed d = s \<longrightarrow>
        (case coder d LZMA_FINISH [] cap of
           (lzret, d', k, out) \<Rightarrow>
             (lzret = LZMA_OK \<or> lzret = LZMA_STREAM_END) \<and>
             length out \<le> cap \<and> prefix (emitted d @ out) p))"

text \<open>
  A context between two steps of such a session: the decoder state is a good one, the
  output window is fresh and of \<open>cap\<close> bytes, and the segments added so far hold what
  the decoder has written.
\<close>

definition session_ok ::
  "('d \<Rightarrow> byte list) \<Rightarrow> ('d \<Rightarrow> byte list) \<Rightarrow> ('d \<Rightarrow> bool) \<Rightarrow> nat \<Rightarrow> byte list
     \<Rightarrow> 'd xz_image_decode_context \<Rightarrow> bool" where
  "session_ok fed emitted good cap s c \<longleftrightarrow>
     good (internal (lzstream c)) \<and> prefix (fed (internal (lzstream c))) s \<and>
     next_out (lzstream c) = 0 \<and> avail_out (lzstream c) = cap \<and>
     xz_buffer_size c = cap \<and> length (unxz_buffer c) = cap \<and>
     concat (memory_istream c) = emitted (internal (lzstream c))"

text \<open>
  The bytes a whole session accumulates: \<^verbatim>\<open>begin_load\<close>, the chunks in order, and the
  final run of \<^verbatim>\<open>_gdk_pixbuf__lzma_code\<close> with \<^verbatim>\<open>LZMA_FINISH\<close> that
  \<^verbatim>\<open>stop_load\<close> starts with; the result is what the memory stream then holds, which
  is what \<^verbatim>\<open>stop_load\<close> hands to the image decoder. \<open>None\<close> if \<^verbatim>\<open>begin_load\<close>
  fails or a step does not return.
\<close>

definition accumulated ::
  "'d externals \<Rightarrow> funptr option \<Rightarrow> funptr option \<Rightarrow> funptr option \<Rightarrow> gpointer
     \<Rightarrow> byte list list \<Rightarrow> world \<Rightarrow> byte list option" where
  "accumulated E size_f prepare_f updated_f extra bufs w =
     (case gdk_pixbuf__begin_load_xz_image E size_f prepare_f updated_f extra w of
        (None, w1) \<Rightarrow> None
      | (Some c, w1) \<Rightarrow>
          (case push_chunks E c bufs w1 of
             None \<Rightarrow> None
           | Some (Inl f) \<Rightarrow> None
           | Some (Inr (ok, c1, w2)) \<Rightarrow>
               map_option (\<lambda>r. concat (memory_istream (fst (snd r))))
                 (gdk_pixbuf__lzma_code E c1 [] LZMA_FINISH w2)))"

section \<open>Frame properties\<close>

lemma malloc_frame:
  "malloc r w = (ok, w1) \<Longrightarrow>
     calls w1 = calls w \<and> closed w1 = closed w \<and> gerror w1 = gerror w \<and>
     live w1 = (if ok then r # live w else live w)"
  by (auto simp: malloc_def acquire_def split: list.splits if_splits)

lemma malloc_empty_tape: "mallocs w = [] \<Longrightarrow> malloc r w = (True, acquire r w)"
  by (simp add: malloc_def)

lemma g_set_error_frame [simp]:
  "calls (g_set_error m w) = calls w" "closed (g_set_error m w) = closed w"
  "live (g_set_error m w) = live w" "mallocs (g_set_error m w) = mallocs w"
  by (simp_all add: g_set_error_def split: option.splits)

lemma g_set_error_set: "\<exists>e. gerror (g_set_error m w) = Some e"
  by (simp add: g_set_error_def split: option.splits)

lemma release_frame [simp]:
  "calls (release r w) = calls w" "closed (release r w) = closed w"
  "gerror (release r w) = gerror w" "live (release r w) = remove1 r (live w)"
  "mallocs (release r w) = mallocs w"
  by (simp_all add: release_def)

lemma acquire_frame [simp]:
  "calls (acquire r w) = calls w" "closed (acquire r w) = closed w"
  "gerror (acquire r w) = gerror w" "live (acquire r w) = r # live w"
  "mallocs (acquire r w) = mallocs w"
  by (simp_all add: acquire_def)

lemma run_callbacks_frame [simp]:
  "gerror (run_callbacks c w) = gerror w" "live (run_callbacks c w) = live w"
  "closed (run_callbacks c w) = closed w" "mallocs (run_callbacks c w) = mallocs w"
  by (simp_all add: run_callbacks_def Let_def split: option.splits)

lemma run_callbacks_calls:
  "calls (run_callbacks c w) = calls w @
     (case pixbuf c of None \<Rightarrow> []
      | Some p \<Rightarrow>
          (case prepare_func c of None \<Rightarrow> [] | Some f \<Rightarrow> [Prepare_call f p (extra_context c)]) @
          (case updated_func c of None \<Rightarrow> []
           | Some g \<Rightarrow> [Updated_call g p 0 0 (pixbuf_width p) (pixbuf_height p) (extra_context c)]))"
  by (simp add: run_callbacks_def Let_def split: option.splits)

lemma same_session_refl: "same_session x x"
  by (simp add: same_session_def)

lemma same_session_trans: "same_session x y \<Longrightarrow> same_session y z \<Longrightarrow> same_session x z"
  by (simp add: same_session_def)

lemma same_session_error: "same_session x (c, w) \<Longrightarrow> same_session x (c, g_set_error m w)"
  by (simp add: same_session_def)

section \<open>One turn of the incremental loop\<close>

lemma turn_unfold:
  assumes "lzma_coder E (internal (lzstream c)) a (take (avail_in (lzstream c)) (next_in (lzstream c)))
             (avail_out (lzstream c)) = (lzret, d, k, out)"
  shows "lzma_code_turn E a (c, w) =
     (let strm = \<lparr>next_in = drop k (next_in (lzstream c)), avail_in = avail_in (lzstream c) - k,
                  next_out = next_out (lzstream c) + length out,
                  avail_out = avail_out (lzstream c) - length out, internal = d\<rparr>;
          buf = write_at (unxz_buffer c) (next_out (lzstream c)) out;
          c1 = c\<lparr>lzstream := strm, unxz_buffer := buf\<rparr>
      in if lzret = LZMA_OK \<or> lzret = LZMA_STREAM_END then
           (if fst (malloc Segment w)
            then (if avail_in strm \<noteq> 0 then Continue else Done)
                   (c1\<lparr>memory_istream := memory_istream c @ [take (xz_buffer_size c - avail_out strm) buf],
                       lzstream := strm\<lparr>avail_out := xz_buffer_size c, next_out := 0\<rparr>\<rparr>,
                    snd (malloc Segment w))
            else Failure ''Error allocating buffer'' (c1, snd (malloc Segment w)))
         else Failure ''Error with lzma decode'' (c1, w))"
  using assms by (cases "malloc Segment w") (simp add: lzma_code_turn_def lzma_code_def Let_def)

lemma turn_same_session: "same_session cw (payload (lzma_code_turn E a cw))"
proof (cases cw)
  case (Pair c w)
  obtain lzret strm buf where
    lz: "lzma_code (lzma_coder E) (lzstream c) (unxz_buffer c) a = (lzret, strm, buf)"
    by (cases "lzma_code (lzma_coder E) (lzstream c) (unxz_buffer c) a") auto
  obtain ok w1 where m: "malloc Segment w = (ok, w1)" by (cases "malloc Segment w") auto
  from malloc_frame[OF m] show ?thesis
    unfolding Pair by (simp add: lzma_code_turn_def lz m Let_def same_session_def)
qed

lemma turn_Done_resets:
  "lzma_code_turn E a cw = Done (c', w') \<Longrightarrow>
     avail_in (lzstream c') = 0 \<and> avail_out (lzstream c') = xz_buffer_size c' \<and>
     next_out (lzstream c') = 0"
  by (auto simp: lzma_code_turn_def Let_def split: prod.splits if_splits)

lemma turn_Failure_message:
  "lzma_code_turn E a cw = Failure m cw' \<Longrightarrow>
     m = ''Error allocating buffer'' \<or> m = ''Error with lzma decode''"
  by (auto simp: lzma_code_turn_def Let_def split: prod.splits if_splits)

section \<open>The incremental loop\<close>

lemma loop_invariant:
  assumes run: "lzma_code_loop E a cw = Some (r, cw')"
      and init: "I cw"
      and step: "\<And>x. I x \<Longrightarrow> I (payload (lzma_code_turn E a x))"
      and err: "\<And>c w m. I (c, w) \<Longrightarrow> I (c, g_set_error m w)"
    shows "I cw'"
proof -
  have "E' = E \<and> a' = a \<longrightarrow> I x \<longrightarrow> I (snd y)"
    if "lzma_code_loop E' a' x = Some y" for E' a' x y
  proof (rule lzma_code_loop.raw_induct[where P = "\<lambda>E' a' x y. E' = E \<and> a' = a \<longrightarrow> I x \<longrightarrow> I (snd y)",
        OF _ that], goal_cases)
    case (1 loop E' a' x y)
    show ?case
    proof (intro impI, elim conjE)
      assume eq: "E' = E" "a' = a" and Ix: "I x"
      have body: "(case lzma_code_turn E a x of Continue cw' \<Rightarrow> loop E a cw'
               | Done cw' \<Rightarrow> Some (True, cw')
               | Failure m cw' \<Rightarrow> Some (False, fst cw', g_set_error m (snd cw'))) = Some y"
        using 1(2) unfolding eq .
      from step[OF Ix] have nxt: "I (payload (lzma_code_turn E a x))" .
      show "I (snd y)"
      proof (cases "lzma_code_turn E a x")
        case (Continue cw1)
        with body have "loop E a cw1 = Some y" by simp
        from 1(1)[OF this] nxt Continue show ?thesis by simp
      next
        case (Done cw1)
        with body nxt show ?thesis by auto
      next
        case (Failure m cw1)
        with body have "y = (False, fst cw1, g_set_error m (snd cw1))" by simp
        moreover from nxt Failure have "I (fst cw1, snd cw1)" by simp
        ultimately show ?thesis using err by simp
      qed
    qed
  qed
  from this[OF run] init show ?thesis by simp
qed

lemma loop_same_session:
  assumes "lzma_code_loop E a cw = Some (r, cw')"
  shows "same_session cw cw'"
proof (rule loop_invariant[OF assms, where I = "same_session cw"])
  show "same_session cw cw" by (rule same_session_refl)
next
  fix x assume "same_session cw x"
  then show "same_session cw (payload (lzma_code_turn E a x))"
    using turn_same_session same_session_trans by blast
next
  fix c w m assume "same_session cw (c, w)"
  then show "same_session cw (c, g_set_error m w)" by (rule same_session_error)
qed

lemma loop_True_resets:
  assumes "lzma_code_loop E a cw = Some (True, c', w')"
  shows "avail_in (lzstream c') = 0 \<and> avail_out (lzstream c') = xz_buffer_size c' \<and>
         next_out (lzstream c') = 0"
proof -
  have "fst y \<longrightarrow> avail_in (lzstream (fst (snd y))) = 0 \<and>
          avail_out (lzstream (fst (snd y))) = xz_buffer_size (fst (snd y)) \<and>
          next_out (lzstream (fst (snd y))) = 0"
    if "lzma_code_loop E a cw = Some y" for y
  proof (rule lzma_code_loop.raw_induct[OF _ that], goal_cases)
    case (1 loop E a cw y)
    show ?case
    proof (cases "lzma_code_turn E a cw")
      case (Continue cw')
      with 1 show ?thesis by simp
    next
      case (Done cw')
      with 1(2) have "y = (True, cw')" by simp
      with turn_Done_resets[of E a cw "fst cw'" "snd cw'"] Done show ?thesis by simp
    next
      case (Failure m cw')
      with 1(2) show ?thesis by auto
    qed
  qed
  from this[OF assms] show ?thesis by simp
qed

lemma loop_False_error:
  assumes "lzma_code_loop E a cw = Some (False, c', w')"
  shows "\<exists>e. gerror w' = Some e"
proof -
  have "\<not> fst y \<longrightarrow> (\<exists>e. gerror (snd (snd y)) = Some e)"
    if "lzma_code_loop E a cw = Some y" for y
  proof (rule lzma_code_loop.raw_induct[OF _ that], goal_cases)
    case (1 loop E a cw y)
    show ?case
    proof (cases "lzma_code_turn E a cw")
      case (Continue cw')
      with 1 show ?thesis by simp
    next
      case (Done cw')
      with 1(2) show ?thesis by auto
    next
      case (Failure m cw')
      with 1(2) have "y = (False, fst cw', g_set_error m (snd cw'))" by simp
      then show ?thesis using g_set_error_set by simp
    qed
  qed
  from this[OF assms] show ?thesis by simp
qed

section \<open>The entry points\<close>

lemma begin_load_Some:
  assumes "gdk_pixbuf__begin_load_xz_image E sf pf uf x w = (Some c, w')"
  shows "\<exists>d. lzma_stream_decoder E = (LZMA_OK, d) \<and>
           c = \<lparr>size_func = sf, updated_func = uf, prepare_func = pf,
                lzstream = \<lparr>next_in = [], avail_in = 0, next_out = 0, avail_out = 2 ^ 16, internal = d\<rparr>,
                unxz_buffer = malloc_bytes (2 ^ 16), xz_buffer_size = 2 ^ 16,
                extra_context = x, pixbuf = None, memory_istream = []\<rparr> \<and>
           calls w' = calls w \<and> closed w' = closed w \<and> gerror w' = gerror w \<and>
           live w' = Memory_istream # Unxz_buffer # Lzma_internal # Lzstream # Context # live w"
proof -
  obtain ok1 w1 where m1: "malloc Context w = (ok1, w1)" by (cases "malloc Context w") auto
  obtain ok2 w2 where m2: "malloc Lzstream w1 = (ok2, w2)" by (cases "malloc Lzstream w1") auto
  obtain lzret d where sd: "lzma_stream_decoder E = (lzret, d)"
    by (cases "lzma_stream_decoder E") auto
  obtain ok3 w3 where m3: "malloc Unxz_buffer (acquire Lzma_internal w2) = (ok3, w3)"
    by (cases "malloc Unxz_buffer (acquire Lzma_internal w2)") auto
  from assms have ok: "ok1" "ok2" "lzret = LZMA_OK" "ok3"
    by (auto simp: gdk_pixbuf__begin_load_xz_image_def m1 m2 sd m3 split: if_splits)
  from assms ok have c: "c = \<lparr>size_func = sf, updated_func = uf, prepare_func = pf,
                lzstream = \<lparr>next_in = [], avail_in = 0, next_out = 0, avail_out = 2 ^ 16, internal = d\<rparr>,
                unxz_buffer = malloc_bytes (2 ^ 16), xz_buffer_size = 2 ^ 16,
                extra_context = x, pixbuf = None, memory_istream = []\<rparr>"
    and w': "w' = acquire Memory_istream w3"
    by (auto simp: gdk_pixbuf__begin_load_xz_image_def m1 m2 sd m3)
  from malloc_frame[OF m1] malloc_frame[OF m2] malloc_frame[OF m3] ok
  have "calls w3 = calls w" "closed w3 = closed w" "gerror w3 = gerror w"
    "live w3 = Unxz_buffer # Lzma_internal # Lzstream # Context # live w"
    by simp_all
  with c w' sd ok show ?thesis by simp
qed

lemma lzma_code_same_session:
  assumes "gdk_pixbuf__lzma_code E c buf a w = Some (r, c', w')"
  shows "same_session (c, w) (c', w')"
proof -
  let ?c = "c\<lparr>lzstream := (lzstream c)\<lparr>next_in := buf, avail_in := length buf\<rparr>\<rparr>"
  from assms have "lzma_code_loop E a (?c, w) = Some (r, (c', w'))"
    by (simp add: gdk_pixbuf__lzma_code_def)
  from loop_same_session[OF this] show ?thesis by (simp add: same_session_def)
qed

lemma increment_Inr:
  "gdk_pixbuf__load_xz_image_increment E c buf w = Some (Inr (r, c', w')) \<longleftrightarrow>
     Context \<in> set (live w) \<and> gdk_pixbuf__lzma_code E c buf LZMA_RUN w = Some (r, c', w')"
  by (auto simp: gdk_pixbuf__load_xz_image_increment_def)

lemma push_chunks_same_session:
  "push_chunks E c bufs w = Some (Inr (r, c', w')) \<Longrightarrow> same_session (c, w) (c', w')"
proof (induction bufs arbitrary: c w)
  case Nil
  then show ?case by (simp add: same_session_refl)
next
  case (Cons buf bufs)
  from Cons.prems obtain ok c1 w1 where
    inc: "gdk_pixbuf__load_xz_image_increment E c buf w = Some (Inr (ok, c1, w1))"
    and rest: "if ok then push_chunks E c1 bufs w1 = Some (Inr (r, c', w'))
               else (r, c', w') = (False, c1, w1)"
    by (auto split: option.splits sum.splits if_splits)
  from inc have s1: "same_session (c, w) (c1, w1)"
    using lzma_code_same_session by (simp add: increment_Inr) blast
  show ?case
  proof (cases ok)
    case True
    with rest Cons.IH have "same_session (c1, w1) (c', w')" by simp
    with s1 show ?thesis by (rule same_session_trans)
  next
    case False
    with rest s1 show ?thesis by simp
  qed
qed

lemma stop_load_Inr_live:
  "gdk_pixbuf__stop_load_xz_image E c w = Some (Inr (ret, w')) \<Longrightarrow> Context \<in> set (live w)"
  by (auto simp: gdk_pixbuf__stop_load_xz_image_def split: if_splits)

lemma stop_load_result:
  assumes flush: "gdk_pixbuf__lzma_code E c [] LZMA_FINISH w = Some (r0, c1, w1)"
      and stop: "gdk_pixbuf__stop_load_xz_image E c w = Some (Inr (ret, w'))"
  shows "(case pixbuf_new_from_stream E (concat (memory_istream c1)) of
            Inl msg \<Rightarrow> ret = False \<and> calls w' = calls w \<and> (\<exists>e. gerror w' = Some e)
          | Inr p \<Rightarrow> ret = r0 \<and> gerror w' = gerror w1 \<and> calls w' = calls w @
                (case prepare_func c of None \<Rightarrow> [] | Some f \<Rightarrow> [Prepare_call f p (extra_context c)]) @
                (case updated_func c of None \<Rightarrow> []
                 | Some g \<Rightarrow> [Updated_call g p 0 0 (pixbuf_width p) (pixbuf_height p) (extra_context c)]))"
proof -
  from lzma_code_same_session[OF flush]
  have fr: "prepare_func c1 = prepare_func c" "updated_func c1 = updated_func c"
    "extra_context c1 = extra_context c" "calls w1 = calls w"
    by (simp_all add: same_session_def)
  note live = stop_load_Inr_live[OF stop]
  show ?thesis
  proof (cases "pixbuf_new_from_stream E (concat (memory_istream c1))")
    case (Inl msg)
    with stop live flush fr show ?thesis
      by (auto simp: gdk_pixbuf__stop_load_xz_image_def Let_def run_callbacks_calls
          g_input_stream_close_def lzma_end_def g_set_error_set)
  next
    case (Inr p)
    with stop live flush fr show ?thesis
      by (auto simp: gdk_pixbuf__stop_load_xz_image_def Let_def run_callbacks_calls
          g_input_stream_close_def lzma_end_def split: option.splits)
  qed
qed

lemma stop_load_live:
  assumes flush: "gdk_pixbuf__lzma_code E c [] LZMA_FINISH w = Some (r0, c1, w1)"
      and stop: "gdk_pixbuf__stop_load_xz_image E c w = Some (Inr (ret, w'))"
  shows "live w' = remove1 Context (remove1 Unxz_buffer (remove1 Lzstream (remove1 Lzma_internal (live w1))))"
proof -
  note live = stop_load_Inr_live[OF stop]
  show ?thesis
  proof (cases "pixbuf_new_from_stream E (concat (memory_istream c1))")
    case (Inl msg)
    with stop live flush show ?thesis
      by (auto simp: gdk_pixbuf__stop_load_xz_image_def Let_def g_input_stream_close_def lzma_end_def)
  next
    case (Inr p)
    with stop live flush show ?thesis
      by (auto simp: gdk_pixbuf__stop_load_xz_image_def Let_def g_input_stream_close_def lzma_end_def)
  qed
qed

section \<open>Success of a decompression step\<close>

text \<open>
  Claim C10. Whenever \<^verbatim>\<open>_gdk_pixbuf__lzma_code\<close> returns \<^verbatim>\<open>TRUE\<close>, the whole chunk has
  been consumed (\<^verbatim>\<open>avail_in\<close> is 0) and the output window is fresh: \<^verbatim>\<open>next_out\<close> is at
  the start of the scratch buffer and \<^verbatim>\<open>avail_out\<close> is the size of the buffer.
\<close>

theorem lzma_code_success_resets:
  "gdk_pixbuf__lzma_code E c buf lzaction w = Some (True, c', w') \<Longrightarrow>
     avail_in (lzstream c') = 0 \<and> next_out (lzstream c') = 0 \<and>
     avail_out (lzstream c') = xz_buffer_size c'"
  using loop_True_resets[of E lzaction _ c' w'] by (simp add: gdk_pixbuf__lzma_code_def)

lemma small_push:
  "gdk_pixbuf__lzma_code toy_externals small_context [1, 2] LZMA_RUN small_world =
     Some (True, loaded_context, loaded_world)"
  by (simp add: gdk_pixbuf__lzma_code_def lzma_code_loop.simps lzma_code_turn_def lzma_code_def
      toy_externals_def toy_coder_def small_context_def small_world_def malloc_def acquire_def
      write_at_def loaded_context_def loaded_world_def Let_def)

theorem lzma_code_success_resets_witness:
  "gdk_pixbuf__lzma_code toy_externals small_context [1, 2] LZMA_RUN small_world =
     Some (True, loaded_context, loaded_world) \<and>
   avail_in (lzstream loaded_context) = 0 \<and> next_out (lzstream loaded_context) = 0 \<and>
   avail_out (lzstream loaded_context) = xz_buffer_size loaded_context"
  using lzma_code_success_resets[OF small_push] small_push by simp

section \<open>The callbacks\<close>

text \<open>
  Claim C7. In a session whose image decode succeeds, \<^verbatim>\<open>begin_load\<close> and the
  \<^verbatim>\<open>load_increment\<close> calls invoke no callback, and \<^verbatim>\<open>stop_load\<close> invokes the prepared
  callback once and then the updated callback once, with the region \<open>x = 0\<close>, \<open>y = 0\<close>
  and the width and height of the decoded image. These are all the callback invocations
  of the session. A callback whose pointer is \<^verbatim>\<open>NULL\<close> is skipped.
\<close>

theorem callbacks_once_after_decode:
  assumes "gdk_pixbuf__begin_load_xz_image E sf pf uf x w0 = (Some c0, w1)"
      and "push_chunks E c0 bufs w1 = Some (Inr (ok, c, w))"
      and "gdk_pixbuf__lzma_code E c [] LZMA_FINISH w = Some (r0, c1, w2)"
      and "pixbuf_new_from_stream E (concat (memory_istream c1)) = Inr p"
      and "gdk_pixbuf__stop_load_xz_image E c w = Some (Inr (ret, w'))"
    shows "calls w1 = calls w0 \<and> calls w = calls w0 \<and>
           calls w' = calls w0 @
             (case pf of None \<Rightarrow> [] | Some f \<Rightarrow> [Prepare_call f p x]) @
             (case uf of None \<Rightarrow> []
              | Some g \<Rightarrow> [Updated_call g p 0 0 (pixbuf_width p) (pixbuf_height p) x])"
proof -
  from begin_load_Some[OF assms(1)]
  have b: "prepare_func c0 = pf" "updated_func c0 = uf" "extra_context c0 = x"
    "calls w1 = calls w0" by auto
  from push_chunks_same_session[OF assms(2)] b
  have p: "prepare_func c = pf" "updated_func c = uf" "extra_context c = x"
    "calls w = calls w0" by (simp_all add: same_session_def)
  from stop_load_result[OF assms(3) assms(5)] assms(4)
  have "calls w' = calls w @
          (case prepare_func c of None \<Rightarrow> [] | Some f \<Rightarrow> [Prepare_call f p (extra_context c)]) @
          (case updated_func c of None \<Rightarrow> []
           | Some g \<Rightarrow> [Updated_call g p 0 0 (pixbuf_width p) (pixbuf_height p) (extra_context c)])"
    by simp
  then show ?thesis unfolding p b by simp
qed

lemma loaded_stop:
  "gdk_pixbuf__stop_load_xz_image toy_externals loaded_context loaded_world =
     Some (Inr (True, stopped_world))"
  by (simp add: gdk_pixbuf__stop_load_xz_image_def gdk_pixbuf__lzma_code_def lzma_code_loop.simps
      lzma_code_turn_def lzma_code_def toy_externals_def toy_coder_def small_context_def
      small_world_def malloc_def acquire_def release_def write_at_def loaded_context_def
      loaded_world_def stopped_world_def run_callbacks_def g_input_stream_close_def lzma_end_def
      Let_def)


lemmas toy_defs = gdk_pixbuf__begin_load_xz_image_def push_chunks.simps gdk_pixbuf__load_xz_image_increment_def
  gdk_pixbuf__stop_load_xz_image_def gdk_pixbuf__lzma_code_def lzma_code_loop.simps
  lzma_code_turn_def lzma_code_def toy_externals_def toy_coder_def empty_world_def malloc_def acquire_def release_def write_at_def
  run_callbacks_def g_input_stream_close_def lzma_end_def g_set_error_def Let_def

lemma toy_session:
  "\<exists>c0 w1. gdk_pixbuf__begin_load_xz_image toy_externals (Some 1) (Some 3) (Some 2) 7 empty_world = (Some c0, w1) \<and>
     (\<exists>c w. push_chunks toy_externals c0 [[1], [2]] w1 = Some (Inr (True, c, w)) \<and>
       (\<exists>c1 w2. gdk_pixbuf__lzma_code toy_externals c [] LZMA_FINISH w = Some (True, c1, w2) \<and>
          pixbuf_new_from_stream toy_externals (concat (memory_istream c1)) = Inr \<lparr>pixbuf_width = 2, pixbuf_height = 1\<rparr> \<and>
          (\<exists>w'. gdk_pixbuf__stop_load_xz_image toy_externals c w = Some (Inr (True, w')))))"
  by (simp add: toy_defs)

theorem callbacks_once_after_decode_witness:
  "\<exists>c0 w1 c w c1 w2 w'.
     gdk_pixbuf__begin_load_xz_image toy_externals (Some 1) (Some 3) (Some 2) 7 empty_world = (Some c0, w1) \<and>
     push_chunks toy_externals c0 [[1], [2]] w1 = Some (Inr (True, c, w)) \<and>
     gdk_pixbuf__lzma_code toy_externals c [] LZMA_FINISH w = Some (True, c1, w2) \<and>
     pixbuf_new_from_stream toy_externals (concat (memory_istream c1)) = Inr \<lparr>pixbuf_width = 2, pixbuf_height = 1\<rparr> \<and>
     gdk_pixbuf__stop_load_xz_image toy_externals c w = Some (Inr (True, w')) \<and>
     calls w' = [Prepare_call 3 \<lparr>pixbuf_width = 2, pixbuf_height = 1\<rparr> 7,
                 Updated_call 2 \<lparr>pixbuf_width = 2, pixbuf_height = 1\<rparr> 0 0 2 1 7]"
proof -
  from toy_session obtain c0 w1 c w c1 w2 w' where
    h: "gdk_pixbuf__begin_load_xz_image toy_externals (Some 1) (Some 3) (Some 2) 7 empty_world = (Some c0, w1)"
       "push_chunks toy_externals c0 [[1], [2]] w1 = Some (Inr (True, c, w))"
       "gdk_pixbuf__lzma_code toy_externals c [] LZMA_FINISH w = Some (True, c1, w2)"
       "pixbuf_new_from_stream toy_externals (concat (memory_istream c1)) = Inr \<lparr>pixbuf_width = 2, pixbuf_height = 1\<rparr>"
       "gdk_pixbuf__stop_load_xz_image toy_externals c w = Some (Inr (True, w'))"
    by blast
  from callbacks_once_after_decode[OF h] have "calls w' = calls empty_world @ [Prepare_call 3 \<lparr>pixbuf_width = 2, pixbuf_height = 1\<rparr> 7,
                 Updated_call 2 \<lparr>pixbuf_width = 2, pixbuf_height = 1\<rparr> 0 0 2 1 7]" by simp
  with h show ?thesis by (auto simp: empty_world_def)
qed

lemma stop_load_flush:
  "gdk_pixbuf__stop_load_xz_image E c w = Some (Inr (ret, w')) \<Longrightarrow>
     \<exists>r0 c1 w1. gdk_pixbuf__lzma_code E c [] LZMA_FINISH w = Some (r0, c1, w1)"
  by (auto simp: gdk_pixbuf__stop_load_xz_image_def split: if_splits option.splits)

text \<open>
  Claim C8. The size callback given to \<^verbatim>\<open>begin_load\<close> is stored in the context and
  stays there, and no operation of the incremental path invokes it: \<^verbatim>\<open>begin_load\<close> and
  \<^verbatim>\<open>load_increment\<close> invoke nothing, and what \<^verbatim>\<open>stop_load\<close> invokes are not size
  callbacks and come only after the image has been decoded.
\<close>

theorem size_func_stored_never_called:
  assumes "gdk_pixbuf__begin_load_xz_image E sf pf uf x w0 = (Some c0, w1)"
      and "push_chunks E c0 bufs w1 = Some (Inr (ok, c, w))"
      and "gdk_pixbuf__stop_load_xz_image E c w = Some (Inr (ret, w'))"
    shows "size_func c0 = sf \<and> size_func c = sf \<and> calls w1 = calls w0 \<and> calls w = calls w0 \<and>
           (\<exists>evs r0 c1 w2. gdk_pixbuf__lzma_code E c [] LZMA_FINISH w = Some (r0, c1, w2) \<and>
              calls w' = calls w0 @ evs \<and> (\<forall>e \<in> set evs. \<not> is_size_call e) \<and>
              (evs \<noteq> [] \<longrightarrow> (\<exists>p. pixbuf_new_from_stream E (concat (memory_istream c1)) = Inr p)))"
proof -
  from begin_load_Some[OF assms(1)]
  have b: "size_func c0 = sf" "calls w1 = calls w0" by auto
  from push_chunks_same_session[OF assms(2)] b
  have p: "size_func c = sf" "calls w = calls w0" by (simp_all add: same_session_def)
  from stop_load_flush[OF assms(3)] obtain r0 c1 w2 where
    flush: "gdk_pixbuf__lzma_code E c [] LZMA_FINISH w = Some (r0, c1, w2)" by blast
  have "\<exists>evs. calls w' = calls w0 @ evs \<and> (\<forall>e \<in> set evs. \<not> is_size_call e) \<and>
              (evs \<noteq> [] \<longrightarrow> (\<exists>p. pixbuf_new_from_stream E (concat (memory_istream c1)) = Inr p))"
  proof (cases "pixbuf_new_from_stream E (concat (memory_istream c1))")
    case (Inl msg)
    with stop_load_result[OF flush assms(3)] p show ?thesis by simp
  next
    case (Inr q)
    with stop_load_result[OF flush assms(3)] p show ?thesis
      by (auto split: option.splits)
  qed
  with b p flush show ?thesis by blast
qed

theorem size_func_stored_never_called_witness:
  "\<exists>c0 w1 c w w'.
     gdk_pixbuf__begin_load_xz_image toy_externals (Some 1) (Some 3) (Some 2) 7 empty_world = (Some c0, w1) \<and>
     push_chunks toy_externals c0 [[1], [2]] w1 = Some (Inr (True, c, w)) \<and>
     gdk_pixbuf__stop_load_xz_image toy_externals c w = Some (Inr (True, w')) \<and>
     size_func c = Some 1 \<and> (\<forall>e \<in> set (calls w'). \<not> is_size_call e)"
proof -
  from toy_session obtain c0 w1 c w w' where
    h: "gdk_pixbuf__begin_load_xz_image toy_externals (Some 1) (Some 3) (Some 2) 7 empty_world = (Some c0, w1)"
       "push_chunks toy_externals c0 [[1], [2]] w1 = Some (Inr (True, c, w))"
       "gdk_pixbuf__stop_load_xz_image toy_externals c w = Some (Inr (True, w'))"
    by blast
  from size_func_stored_never_called[OF h] have "size_func c = Some 1"
    "\<forall>e \<in> set (calls w'). \<not> is_size_call e" by (auto simp: empty_world_def)
  with h show ?thesis by blast
qed

section \<open>Calling \<^verbatim>\<open>stop_load\<close> twice\<close>

text \<open>
  Claim C2 says that a second \<^verbatim>\<open>stop_load\<close> on a finished session is a no-op that
  returns the outcome of the first. The first call frees the context, so the second
  dereferences freed memory: here the first call returns \<^verbatim>\<open>TRUE\<close> and the second is
  not defined.
\<close>

theorem second_stop_load_counterexample:
  "gdk_pixbuf__stop_load_xz_image toy_externals loaded_context loaded_world =
     Some (Inr (True, stopped_world)) \<and>
   gdk_pixbuf__stop_load_xz_image toy_externals loaded_context stopped_world =
     Some (Inl Use_after_free) \<and>
   gdk_pixbuf__stop_load_xz_image toy_externals loaded_context stopped_world \<noteq>
     Some (Inr (True, stopped_world))"
  using loaded_stop by (simp add: gdk_pixbuf__stop_load_xz_image_def stopped_world_def)

text \<open>
  Claim C2 as amended. In a session begun with \<^verbatim>\<open>begin_load\<close>, a \<^verbatim>\<open>stop_load\<close> that
  returns has released the context, the \<^verbatim>\<open>lzma_stream\<close>, the engine's state and the
  scratch buffer; of what the session acquired only the memory stream and its segments
  remain. No outcome is kept, and a later \<^verbatim>\<open>stop_load\<close> or \<^verbatim>\<open>load_increment\<close> on that
  context is a use after free.
\<close>

theorem stop_load_frees_context:
  assumes "Context \<notin> set (live w0)"
      and "gdk_pixbuf__begin_load_xz_image E sf pf uf x w0 = (Some c0, w1)"
      and "push_chunks E c0 bufs w1 = Some (Inr (ok, c, w))"
      and "gdk_pixbuf__stop_load_xz_image E c w = Some (Inr (ret, w'))"
    shows "filter (\<lambda>r. r \<noteq> Segment) (live w') = Memory_istream # filter (\<lambda>r. r \<noteq> Segment) (live w0) \<and>
           Context \<notin> set (live w') \<and>
           gdk_pixbuf__stop_load_xz_image E c2 w' = Some (Inl Use_after_free) \<and>
           gdk_pixbuf__load_xz_image_increment E c2 buf w' = Some (Inl Use_after_free)"
proof -
  let ?F = "filter (\<lambda>r. r \<noteq> Segment)"
  from begin_load_Some[OF assms(2)]
  have b: "live w1 = Memory_istream # Unxz_buffer # Lzma_internal # Lzstream # Context # live w0"
    by auto
  from push_chunks_same_session[OF assms(3)] have p: "?F (live w) = ?F (live w1)"
    by (simp add: same_session_def)
  from stop_load_flush[OF assms(4)] obtain r0 c1 w2 where
    flush: "gdk_pixbuf__lzma_code E c [] LZMA_FINISH w = Some (r0, c1, w2)" by blast
  from lzma_code_same_session[OF flush] have f: "?F (live w2) = ?F (live w)"
    by (simp add: same_session_def)
  have "?F (live w') = remove1 Context (remove1 Unxz_buffer (remove1 Lzstream
          (remove1 Lzma_internal (?F (live w2)))))"
    by (simp add: stop_load_live[OF flush assms(4)] filter_remove1)
  with f p b have l: "?F (live w') = Memory_istream # ?F (live w0)" by simp
  have "Context \<in> set (live w') \<longleftrightarrow> Context \<in> set (?F (live w'))" by simp
  with l assms(1) have "Context \<notin> set (live w')" by simp
  with l show ?thesis
    by (simp add: gdk_pixbuf__stop_load_xz_image_def gdk_pixbuf__load_xz_image_increment_def)
qed

theorem stop_load_frees_context_witness:
  "\<exists>c0 w1 c w w'.
     Context \<notin> set (live empty_world) \<and>
     gdk_pixbuf__begin_load_xz_image toy_externals (Some 1) (Some 3) (Some 2) 7 empty_world = (Some c0, w1) \<and>
     push_chunks toy_externals c0 [[1], [2]] w1 = Some (Inr (True, c, w)) \<and>
     gdk_pixbuf__stop_load_xz_image toy_externals c w = Some (Inr (True, w')) \<and>
     Context \<notin> set (live w') \<and>
     gdk_pixbuf__stop_load_xz_image toy_externals c w' = Some (Inl Use_after_free)"
proof -
  have e: "Context \<notin> set (live empty_world)" by (simp add: empty_world_def)
  from toy_session obtain c0 w1 c w w' where
    h: "gdk_pixbuf__begin_load_xz_image toy_externals (Some 1) (Some 3) (Some 2) 7 empty_world = (Some c0, w1)"
       "push_chunks toy_externals c0 [[1], [2]] w1 = Some (Inr (True, c, w))"
       "gdk_pixbuf__stop_load_xz_image toy_externals c w = Some (Inr (True, w'))"
    by blast
  from stop_load_frees_context[OF e h, where ?c2.0 = c] e h show ?thesis by blast
qed

section \<open>The output window\<close>

lemma length_write_at:
  "off + length src \<le> length buf \<Longrightarrow> length (write_at buf off src) = length buf"
  by (simp add: write_at_def)

lemma take_write_at:
  "off + length src \<le> length buf \<Longrightarrow>
     take (off + length src) (write_at buf off src) = take off buf @ src"
  by (simp add: write_at_def)

lemma lzma_code_window:
  assumes res: "coder (internal strm) a (take (avail_in strm) (next_in strm)) (avail_out strm) =
                  (lzret, d, k, out)"
      and win: "window_ok strm buf cap"
      and bound: "length out \<le> avail_out strm"
  shows "\<exists>strm' buf'. lzma_code coder strm buf a = (lzret, strm', buf') \<and>
           window_ok strm' buf' cap \<and> written strm' buf' = written strm buf @ out \<and>
           cap - avail_out strm' = next_out strm' \<and> length (written strm' buf') = next_out strm' \<and>
           avail_in strm' = avail_in strm - k \<and> next_in strm' = drop k (next_in strm) \<and>
           internal strm' = d \<and> next_out strm' = next_out strm + length out"
proof -
  from win bound have le: "next_out strm + length out \<le> length buf"
    and len: "length buf = cap"
    and cur: "cap - (avail_out strm - length out) = next_out strm + length out"
    and sum: "next_out strm + length out + (avail_out strm - length out) = cap"
    unfolding window_ok_def by auto
  from le len have "min cap (next_out strm + length out) = next_out strm + length out"
    by simp
  then show ?thesis
    by (simp add: lzma_code_def res window_ok_def written_def length_write_at[OF le]
        take_write_at[OF le] len cur sum)
qed

lemma turn_drain:
  assumes lz: "lzma_code (lzma_coder E) (lzstream c) (unxz_buffer c) a = (lzret, strm, buf)"
      and ok: "lzret = LZMA_OK \<or> lzret = LZMA_STREAM_END"
      and m: "malloc Segment w = (True, w1)"
  shows "lzma_code_turn E a (c, w) =
           (if avail_in strm \<noteq> 0 then Continue else Done)
             (c\<lparr>lzstream := strm\<lparr>avail_out := xz_buffer_size c, next_out := 0\<rparr>,
                unxz_buffer := buf,
                memory_istream := memory_istream c @ [take (xz_buffer_size c - avail_out strm) buf]\<rparr>,
              w1)"
  using ok by (simp add: lzma_code_turn_def lz m Let_def)

lemma turn_window:
  assumes bounded: "coder_bounded (lzma_coder E)"
      and win: "window_ok (lzstream c) (unxz_buffer c) (xz_buffer_size c)"
      and pay: "payload (lzma_code_turn E a (c, w)) = (c', w')"
  shows "window_ok (lzstream c') (unxz_buffer c') (xz_buffer_size c')"
proof -
  obtain lzret d k out where
    res: "lzma_coder E (internal (lzstream c)) a (take (avail_in (lzstream c)) (next_in (lzstream c)))
            (avail_out (lzstream c)) = (lzret, d, k, out)"
    by (metis prod_cases4)
  from bounded res have "length out \<le> avail_out (lzstream c)"
    by (auto simp: coder_bounded_def split: prod.splits)
  from lzma_code_window[where coder = "lzma_coder E", OF res win this] obtain strm buf where
    lz: "lzma_code (lzma_coder E) (lzstream c) (unxz_buffer c) a = (lzret, strm, buf)"
    and w1: "window_ok strm buf (xz_buffer_size c)" by blast
  obtain got w1' where m: "malloc Segment w = (got, w1')" by (cases "malloc Segment w") auto
  from pay w1 show ?thesis
    by (auto simp: lzma_code_turn_def lz m Let_def window_ok_def split: if_splits)
qed

lemma length_malloc_bytes [simp]: "length (malloc_bytes n) = n"
  by (simp add: malloc_bytes_def)

lemma reachable_window:
  assumes "coder_bounded (lzma_coder E)" and "reachable E c"
  shows "window_ok (lzstream c) (unxz_buffer c) (xz_buffer_size c)"
  using assms(2)
proof (induction rule: reachable.induct)
  case (reach_begin sf pf uf x w c w')
  from begin_load_Some[OF this] show ?case by (auto simp: window_ok_def)
next
  case (reach_feed c buf)
  then show ?case by (simp add: window_ok_def)
next
  case (reach_turn c a w c' w')
  from turn_window[OF assms(1) reach_turn.IH reach_turn.hyps(2)] show ?case .
qed

section \<open>The one-shot loop\<close>

lemma load_read_window:
  assumes "load_read n l = Inr l1 \<or> load_read n l = Inl l1"
  shows "next_out (ld_lzstream l1) = next_out (ld_lzstream l) \<and>
         avail_out (ld_lzstream l1) = avail_out (ld_lzstream l) \<and>
         internal (ld_lzstream l1) = internal (ld_lzstream l) \<and>
         ld_unxz_buffer l1 = ld_unxz_buffer l \<and> ld_memory_istream l1 = ld_memory_istream l"
  using assms
  by (cases "fread n (ld_file l)") (auto simp: load_read_def Let_def split: if_splits)

lemma load_drain_window:
  assumes win: "window_ok (ld_lzstream l) (ld_unxz_buffer l) n"
      and dr: "load_drain n lzret (l, w) = Inr (l', w') \<or> load_drain n lzret (l, w) = Inl (l', w')"
  shows "window_ok (ld_lzstream l') (ld_unxz_buffer l') n"
  using assms
  by (cases "malloc Segment w") (auto simp: load_drain_def Let_def window_ok_def split: if_splits)

lemma load_turn_window:
  assumes bounded: "coder_bounded (lzma_coder E)"
      and win: "window_ok (ld_lzstream l) (ld_unxz_buffer l) n"
      and pay: "payload (load_turn E n (l, w)) = (l', w')"
  shows "window_ok (ld_lzstream l') (ld_unxz_buffer l') n"
proof (cases "load_read n l")
  case (Inl l1)
  with pay have "l' = l1" by (simp add: load_turn_def)
  with load_read_window[of n l l1] Inl win show ?thesis by (simp add: window_ok_def)
next
  case (Inr l1)
  with load_read_window[of n l l1] win
  have win1: "window_ok (ld_lzstream l1) (ld_unxz_buffer l1) n" by (simp add: window_ok_def)
  obtain lzret d k out where
    res: "lzma_coder E (internal (ld_lzstream l1)) (ld_lzaction l1)
            (take (avail_in (ld_lzstream l1)) (next_in (ld_lzstream l1)))
            (avail_out (ld_lzstream l1)) = (lzret, d, k, out)"
    by (metis prod_cases4)
  from bounded res have "length out \<le> avail_out (ld_lzstream l1)"
    by (auto simp: coder_bounded_def split: prod.splits)
  from lzma_code_window[where coder = "lzma_coder E", OF res win1 this] obtain strm buf where
    lz: "lzma_code (lzma_coder E) (ld_lzstream l1) (ld_unxz_buffer l1) (ld_lzaction l1) =
           (lzret, strm, buf)"
    and w2: "window_ok strm buf n" by blast
  let ?l2 = "l1\<lparr>ld_lzstream := strm, ld_unxz_buffer := buf\<rparr>"
  from w2 have win2: "window_ok (ld_lzstream ?l2) (ld_unxz_buffer ?l2) n" by simp
  from pay have "load_drain n lzret (?l2, w) = Inr (l', w') \<or> load_drain n lzret (?l2, w) = Inl (l', w')"
    by (auto simp: load_turn_def Inr lz split: sum.splits if_splits)
  from load_drain_window[OF win2 this] show ?thesis .
qed

lemma load_reachable_window:
  assumes "coder_bounded (lzma_coder E)" and "load_reachable E n l"
  shows "window_ok (ld_lzstream l) (ld_unxz_buffer l) n"
  using assms(2)
proof (induction rule: load_reachable.induct)
  case (reach_start f d)
  show ?case by (simp add: window_ok_def)
next
  case (reach_load_turn l w l' w')
  from load_turn_window[OF assms(1) reach_load_turn.IH reach_load_turn.hyps(2)] show ?case .
qed

lemma turn_not_Failure:
  assumes lz: "lzma_code (lzma_coder E) (lzstream c) (unxz_buffer c) a = (lzret, strm, buf)"
      and t: "lzma_code_turn E a (c, w) = Continue (c', w') \<or> lzma_code_turn E a (c, w) = Done (c', w')"
  shows "c' = c\<lparr>lzstream := strm\<lparr>avail_out := xz_buffer_size c, next_out := 0\<rparr>,
                unxz_buffer := buf,
                memory_istream := memory_istream c @ [take (xz_buffer_size c - avail_out strm) buf]\<rparr> \<and>
         malloc Segment w = (True, w') \<and> (lzret = LZMA_OK \<or> lzret = LZMA_STREAM_END)"
  using t by (cases "malloc Segment w") (auto simp: lzma_code_turn_def lz Let_def split: if_splits)

lemma coder_boundedD:
  "coder_bounded coder \<Longrightarrow> coder d a inp n = (lzret, d', k, out) \<Longrightarrow>
     k \<le> length inp \<and> length out \<le> n"
  by (auto simp: coder_bounded_def split: prod.splits)

lemma window_drain_incremental:
  assumes bounded: "coder_bounded (lzma_coder E)"
      and win: "window_ok (lzstream c) (unxz_buffer c) (xz_buffer_size c)"
      and res: "lzma_coder E (internal (lzstream c)) a
                  (take (avail_in (lzstream c)) (next_in (lzstream c))) (avail_out (lzstream c)) =
                  (lzret, d, k, out)"
      and t: "lzma_code_turn E a (c, w) = Continue (c', w') \<or> lzma_code_turn E a (c, w) = Done (c', w')"
  shows "memory_istream c' = memory_istream c @ [written (lzstream c) (unxz_buffer c) @ out] \<and>
         length (written (lzstream c) (unxz_buffer c) @ out) =
           xz_buffer_size c - (avail_out (lzstream c) - length out) \<and>
         written (lzstream c') (unxz_buffer c') = []"
proof -
  from coder_boundedD[OF bounded res] have b: "length out \<le> avail_out (lzstream c)" by simp
  from lzma_code_window[where coder = "lzma_coder E", OF res win b] obtain strm buf where
    lz: "lzma_code (lzma_coder E) (lzstream c) (unxz_buffer c) a = (lzret, strm, buf)"
    and wr: "written strm buf = written (lzstream c) (unxz_buffer c) @ out"
    and cur: "xz_buffer_size c - avail_out strm = next_out strm"
    and len: "length (written strm buf) = next_out strm"
    and nxt: "next_out strm = next_out (lzstream c) + length out" by blast
  from win b have "xz_buffer_size c - (avail_out (lzstream c) - length out) =
      next_out (lzstream c) + length out" unfolding window_ok_def by auto
  with turn_not_Failure[OF lz t] wr cur len nxt show ?thesis
    by (simp add: written_def)
qed

lemma window_drain_one_shot:
  assumes bounded: "coder_bounded (lzma_coder E)"
      and win: "window_ok (ld_lzstream l) (ld_unxz_buffer l) n"
      and rd: "load_read n l = Inr l1"
      and res: "lzma_coder E (internal (ld_lzstream l1)) (ld_lzaction l1)
                  (take (avail_in (ld_lzstream l1)) (next_in (ld_lzstream l1)))
                  (avail_out (ld_lzstream l1)) = (lzret, d, k, out)"
      and t: "load_turn E n (l, w) = Continue (l', w') \<or> load_turn E n (l, w) = Done (l', w')"
  shows "if avail_out (ld_lzstream l) - length out = 0 \<or> lzret = LZMA_STREAM_END
         then ld_memory_istream l' =
                ld_memory_istream l @ [written (ld_lzstream l) (ld_unxz_buffer l) @ out] \<and>
              length (written (ld_lzstream l) (ld_unxz_buffer l) @ out) =
                n - (avail_out (ld_lzstream l) - length out) \<and>
              written (ld_lzstream l') (ld_unxz_buffer l') = []
         else ld_memory_istream l' = ld_memory_istream l \<and>
              written (ld_lzstream l') (ld_unxz_buffer l') =
                written (ld_lzstream l) (ld_unxz_buffer l) @ out"
proof -
  from load_read_window[of n l l1] rd
  have same: "next_out (ld_lzstream l1) = next_out (ld_lzstream l)"
    "avail_out (ld_lzstream l1) = avail_out (ld_lzstream l)"
    "ld_unxz_buffer l1 = ld_unxz_buffer l" "ld_memory_istream l1 = ld_memory_istream l"
    by simp_all
  with win have win1: "window_ok (ld_lzstream l1) (ld_unxz_buffer l1) n"
    by (simp add: window_ok_def)
  from coder_boundedD[OF bounded res] have b: "length out \<le> avail_out (ld_lzstream l1)" by simp
  from lzma_code_window[where coder = "lzma_coder E", OF res win1 b] obtain strm buf where
    lz: "lzma_code (lzma_coder E) (ld_lzstream l1) (ld_unxz_buffer l1) (ld_lzaction l1) =
           (lzret, strm, buf)"
    and wr: "written strm buf = written (ld_lzstream l1) (ld_unxz_buffer l1) @ out"
    and cur: "n - avail_out strm = next_out strm"
    and len: "length (written strm buf) = next_out strm"
    and nxt: "next_out strm = next_out (ld_lzstream l1) + length out"
    and av: "window_ok strm buf n" by blast
  from win1 b have c2: "n - (avail_out (ld_lzstream l1) - length out) =
      next_out (ld_lzstream l1) + length out"
    and av2: "avail_out strm = avail_out (ld_lzstream l1) - length out \<longrightarrow> True"
    unfolding window_ok_def by auto
  from av nxt win1 have avs: "avail_out strm = avail_out (ld_lzstream l1) - length out"
    unfolding window_ok_def by auto
  have wl: "written (ld_lzstream l1) (ld_unxz_buffer l1) = written (ld_lzstream l) (ld_unxz_buffer l)"
    by (simp add: written_def same)
  obtain got w1 where m: "malloc Segment w = (got, w1)" by (cases "malloc Segment w") auto
  from t have dr: "load_drain n lzret (l1\<lparr>ld_lzstream := strm, ld_unxz_buffer := buf\<rparr>, w) = Inr (l', w')"
    by (auto simp: load_turn_def rd lz split: sum.splits if_splits)
  have cond: "avail_out strm = 0 \<longleftrightarrow> avail_out (ld_lzstream l) - length out = 0"
    using avs same by simp
  show ?thesis
  proof (cases "avail_out strm = 0 \<or> lzret = LZMA_STREAM_END")
    case True
    with dr m have "l' = l1\<lparr>ld_lzstream := strm\<lparr>next_out := 0, avail_out := n\<rparr>,
         ld_unxz_buffer := buf,
         ld_memory_istream := ld_memory_istream l1 @ [take (n - avail_out strm) buf]\<rparr>"
      by (auto simp: load_drain_def Let_def split: if_splits)
    moreover from wr cur have "take (n - avail_out strm) buf =
        written (ld_lzstream l) (ld_unxz_buffer l) @ out"
      by (simp add: written_def wl[unfolded written_def])
    moreover have "length (written (ld_lzstream l) (ld_unxz_buffer l)) = next_out (ld_lzstream l)"
      using win unfolding window_ok_def written_def by auto
    with c2 same
    have "length (written (ld_lzstream l) (ld_unxz_buffer l) @ out) =
                n - (avail_out (ld_lzstream l) - length out)"
      by simp
    ultimately show ?thesis using True cond same by (simp add: written_def)
  next
    case False
    with dr have "l' = l1\<lparr>ld_lzstream := strm, ld_unxz_buffer := buf\<rparr>"
      by (auto simp: load_drain_def Let_def)
    with False cond wr wl same show ?thesis by simp
  qed
qed

section \<open>The write cursor of the scratch buffer\<close>

text \<open>
  Claim C5. For a decoder that stays within its buffers, in every reachable state of
  the incremental session and of the one-shot loop the room left \<^verbatim>\<open>avail_out\<close> is at
  most the capacity, the write cursor (capacity minus \<^verbatim>\<open>avail_out\<close>) is \<^verbatim>\<open>next_out\<close>
  and lies within the scratch buffer, whose length is the capacity. Every drain appends
  one segment that holds exactly the bytes written since the window was last reset
  (the bytes below the cursor before the call, then the bytes the decoder wrote in the
  call), its length is the capacity minus \<^verbatim>\<open>avail_out\<close>, and the window is empty
  afterwards. In the one-shot loop a turn that does not drain leaves the bytes written
  in the window.
\<close>

theorem scratch_cursor_within_capacity:
  assumes "coder_bounded (lzma_coder E)"
  shows "(reachable E c \<longrightarrow>
            avail_out (lzstream c) \<le> xz_buffer_size c \<and>
            xz_buffer_size c - avail_out (lzstream c) = next_out (lzstream c) \<and>
            next_out (lzstream c) \<le> length (unxz_buffer c) \<and>
            length (unxz_buffer c) = xz_buffer_size c \<and>
            (\<forall>a w lzret d k out c' w'.
               lzma_coder E (internal (lzstream c)) a
                 (take (avail_in (lzstream c)) (next_in (lzstream c))) (avail_out (lzstream c)) =
                 (lzret, d, k, out) \<and>
               (lzma_code_turn E a (c, w) = Continue (c', w') \<or>
                lzma_code_turn E a (c, w) = Done (c', w')) \<longrightarrow>
               memory_istream c' = memory_istream c @ [written (lzstream c) (unxz_buffer c) @ out] \<and>
               length (written (lzstream c) (unxz_buffer c) @ out) =
                 xz_buffer_size c - (avail_out (lzstream c) - length out) \<and>
               written (lzstream c') (unxz_buffer c') = [])) \<and>
         (load_reachable E n l \<longrightarrow>
            avail_out (ld_lzstream l) \<le> n \<and>
            n - avail_out (ld_lzstream l) = next_out (ld_lzstream l) \<and>
            next_out (ld_lzstream l) \<le> length (ld_unxz_buffer l) \<and>
            length (ld_unxz_buffer l) = n \<and>
            (\<forall>w l1 lzret d k out l' w'.
               load_read n l = Inr l1 \<and>
               lzma_coder E (internal (ld_lzstream l1)) (ld_lzaction l1)
                 (take (avail_in (ld_lzstream l1)) (next_in (ld_lzstream l1)))
                 (avail_out (ld_lzstream l1)) = (lzret, d, k, out) \<and>
               (load_turn E n (l, w) = Continue (l', w') \<or> load_turn E n (l, w) = Done (l', w')) \<longrightarrow>
               (if avail_out (ld_lzstream l) - length out = 0 \<or> lzret = LZMA_STREAM_END
                then ld_memory_istream l' =
                       ld_memory_istream l @ [written (ld_lzstream l) (ld_unxz_buffer l) @ out] \<and>
                     length (written (ld_lzstream l) (ld_unxz_buffer l) @ out) =
                       n - (avail_out (ld_lzstream l) - length out) \<and>
                     written (ld_lzstream l') (ld_unxz_buffer l') = []
                else ld_memory_istream l' = ld_memory_istream l \<and>
                     written (ld_lzstream l') (ld_unxz_buffer l') =
                       written (ld_lzstream l) (ld_unxz_buffer l) @ out)))"
proof (intro conjI impI)
  assume r: "reachable E c"
  note win = reachable_window[OF assms r]
  from win show "avail_out (lzstream c) \<le> xz_buffer_size c"
    and "xz_buffer_size c - avail_out (lzstream c) = next_out (lzstream c)"
    and "next_out (lzstream c) \<le> length (unxz_buffer c)"
    and "length (unxz_buffer c) = xz_buffer_size c"
    unfolding window_ok_def by auto
  show "\<forall>a w lzret d k out c' w'.
               lzma_coder E (internal (lzstream c)) a
                 (take (avail_in (lzstream c)) (next_in (lzstream c))) (avail_out (lzstream c)) =
                 (lzret, d, k, out) \<and>
               (lzma_code_turn E a (c, w) = Continue (c', w') \<or>
                lzma_code_turn E a (c, w) = Done (c', w')) \<longrightarrow>
               memory_istream c' = memory_istream c @ [written (lzstream c) (unxz_buffer c) @ out] \<and>
               length (written (lzstream c) (unxz_buffer c) @ out) =
                 xz_buffer_size c - (avail_out (lzstream c) - length out) \<and>
               written (lzstream c') (unxz_buffer c') = []"
    using window_drain_incremental[OF assms win] by blast
next
  assume r: "load_reachable E n l"
  note win = load_reachable_window[OF assms r]
  from win show "avail_out (ld_lzstream l) \<le> n"
    and "n - avail_out (ld_lzstream l) = next_out (ld_lzstream l)"
    and "next_out (ld_lzstream l) \<le> length (ld_unxz_buffer l)"
    and "length (ld_unxz_buffer l) = n"
    unfolding window_ok_def by auto
  show "\<forall>w l1 lzret d k out l' w'.
               load_read n l = Inr l1 \<and>
               lzma_coder E (internal (ld_lzstream l1)) (ld_lzaction l1)
                 (take (avail_in (ld_lzstream l1)) (next_in (ld_lzstream l1)))
                 (avail_out (ld_lzstream l1)) = (lzret, d, k, out) \<and>
               (load_turn E n (l, w) = Continue (l', w') \<or> load_turn E n (l, w) = Done (l', w')) \<longrightarrow>
               (if avail_out (ld_lzstream l) - length out = 0 \<or> lzret = LZMA_STREAM_END
                then ld_memory_istream l' =
                       ld_memory_istream l @ [written (ld_lzstream l) (ld_unxz_buffer l) @ out] \<and>
                     length (written (ld_lzstream l) (ld_unxz_buffer l) @ out) =
                       n - (avail_out (ld_lzstream l) - length out) \<and>
                     written (ld_lzstream l') (ld_unxz_buffer l') = []
                else ld_memory_istream l' = ld_memory_istream l \<and>
                     written (ld_lzstream l') (ld_unxz_buffer l') =
                       written (ld_lzstream l) (ld_unxz_buffer l) @ out)"
    using window_drain_one_shot[OF assms win] by blast
qed

lemma toy_bounded: "coder_bounded toy_coder"
  by (auto simp: coder_bounded_def toy_coder_def split: list.splits)

lemma toy_turn:
  "\<exists>c0 w1. gdk_pixbuf__begin_load_xz_image toy_externals (Some 1) (Some 3) (Some 2) 7 empty_world = (Some c0, w1) \<and>
     toy_coder (internal (lzstream c0)) LZMA_RUN [1] (avail_out (lzstream c0)) =
       (LZMA_OK, ([1], [1]), 1, [1]) \<and>
     (\<exists>c' w'. lzma_code_turn toy_externals LZMA_RUN
                 (c0\<lparr>lzstream := (lzstream c0)\<lparr>next_in := [1], avail_in := length [1::byte]\<rparr>\<rparr>, w1) =
               Done (c', w'))"
  by (simp add: toy_defs)

lemma toy_load_turn:
  "\<exists>l1. load_read 4 small_locals = Inr l1 \<and>
     lzma_coder toy_externals (internal (ld_lzstream l1)) (ld_lzaction l1)
       (take (avail_in (ld_lzstream l1)) (next_in (ld_lzstream l1))) (avail_out (ld_lzstream l1)) =
       (LZMA_OK, ([7], [7]), 1, [7]) \<and>
     (\<exists>l' w'. load_turn toy_externals 4 (small_locals, empty_world) = Continue (l', w'))"
  by (simp add: load_turn_def load_read_def load_drain_def fread_def lzma_code_def
      toy_externals_def toy_coder_def small_locals_def good_file_def write_at_def Let_def)

theorem scratch_cursor_within_capacity_witness:
  "\<exists>c w c' w' l1 l' w2.
     coder_bounded (lzma_coder toy_externals) \<and> reachable toy_externals c \<and>
     avail_out (lzstream c) \<le> xz_buffer_size c \<and>
     lzma_code_turn toy_externals LZMA_RUN (c, w) = Done (c', w') \<and>
     memory_istream c' = memory_istream c @ [written (lzstream c) (unxz_buffer c) @ [1]] \<and>
     load_reachable toy_externals 4 small_locals \<and> avail_out (ld_lzstream small_locals) \<le> 4 \<and>
     load_read 4 small_locals = Inr l1 \<and>
     load_turn toy_externals 4 (small_locals, empty_world) = Continue (l', w2) \<and>
     written (ld_lzstream l') (ld_unxz_buffer l') =
       written (ld_lzstream small_locals) (ld_unxz_buffer small_locals) @ [7]"
proof -
  have b: "coder_bounded (lzma_coder toy_externals)"
    using toy_bounded by (simp add: toy_externals_def)
  from toy_turn obtain c0 w1 c' w' where
    beg: "gdk_pixbuf__begin_load_xz_image toy_externals (Some 1) (Some 3) (Some 2) 7 empty_world = (Some c0, w1)"
    and res: "toy_coder (internal (lzstream c0)) LZMA_RUN [1] (avail_out (lzstream c0)) =
       (LZMA_OK, ([1], [1]), 1, [1])"
    and t: "lzma_code_turn toy_externals LZMA_RUN
                 (c0\<lparr>lzstream := (lzstream c0)\<lparr>next_in := [1], avail_in := length [1::byte]\<rparr>\<rparr>, w1) =
               Done (c', w')" by blast
  from toy_load_turn obtain l1 l' w2 where
    rd: "load_read 4 small_locals = Inr l1"
    and lres: "lzma_coder toy_externals (internal (ld_lzstream l1)) (ld_lzaction l1)
       (take (avail_in (ld_lzstream l1)) (next_in (ld_lzstream l1))) (avail_out (ld_lzstream l1)) =
       (LZMA_OK, ([7], [7]), 1, [7])"
    and lt: "load_turn toy_externals 4 (small_locals, empty_world) = Continue (l', w2)" by blast
  define c where "c = c0\<lparr>lzstream := (lzstream c0)\<lparr>next_in := [1], avail_in := length [1::byte]\<rparr>\<rparr>"
  have r: "reachable toy_externals c"
    unfolding c_def by (rule reach_feed[OF reach_begin[OF beg]])
  have lr: "load_reachable toy_externals 4 small_locals"
    unfolding small_locals_def by (rule reach_start)
  have res': "lzma_coder toy_externals (internal (lzstream c)) LZMA_RUN
                 (take (avail_in (lzstream c)) (next_in (lzstream c))) (avail_out (lzstream c)) =
                 (LZMA_OK, ([1], [1]), 1, [1])"
    using res by (simp add: toy_externals_def c_def)
  from t have t': "lzma_code_turn toy_externals LZMA_RUN (c, w1) = Done (c', w')"
    by (simp add: c_def)
  have nd: "\<not> (avail_out (ld_lzstream small_locals) - length [7::byte] = 0 \<or>
                LZMA_OK = LZMA_STREAM_END)"
    by (simp add: small_locals_def)
  note th = scratch_cursor_within_capacity[OF b, where c = c and n = 4 and l = small_locals]
  from th r have "avail_out (lzstream c) \<le> xz_buffer_size c" by blast
  moreover from th r res' t'
  have "memory_istream c' = memory_istream c @ [written (lzstream c) (unxz_buffer c) @ [1]]"
    by blast
  moreover from th lr have "avail_out (ld_lzstream small_locals) \<le> 4" by blast
  moreover from th lr have "\<forall>w l1 lzret d k out l' w'.
               load_read 4 small_locals = Inr l1 \<and>
               lzma_coder toy_externals (internal (ld_lzstream l1)) (ld_lzaction l1)
                 (take (avail_in (ld_lzstream l1)) (next_in (ld_lzstream l1)))
                 (avail_out (ld_lzstream l1)) = (lzret, d, k, out) \<and>
               (load_turn toy_externals 4 (small_locals, w) = Continue (l', w') \<or>
                load_turn toy_externals 4 (small_locals, w) = Done (l', w')) \<longrightarrow>
               (if avail_out (ld_lzstream small_locals) - length out = 0 \<or> lzret = LZMA_STREAM_END
                then ld_memory_istream l' =
                       ld_memory_istream small_locals @
                       [written (ld_lzstream small_locals) (ld_unxz_buffer small_locals) @ out] \<and>
                     length (written (ld_lzstream small_locals) (ld_unxz_buffer small_locals) @ out) =
                       4 - (avail_out (ld_lzstream small_locals) - length out) \<and>
                     written (ld_lzstream l') (ld_unxz_buffer l') = []
                else ld_memory_istream l' = ld_memory_istream small_locals \<and>
                     written (ld_lzstream l') (ld_unxz_buffer l') =
                       written (ld_lzstream small_locals) (ld_unxz_buffer small_locals) @ out)"
    by blast
  from this[rule_format, of l1 LZMA_OK "([7], [7])" 1 "[7]" empty_world l' w2] rd lres lt nd
  have "written (ld_lzstream l') (ld_unxz_buffer l') =
       written (ld_lzstream small_locals) (ld_unxz_buffer small_locals) @ [7]"
    by simp
  ultimately show ?thesis using b r lr t' rd lt by blast
qed

section \<open>The end of the stream during \<^verbatim>\<open>load_increment\<close>\<close>

lemma turn_drained:
  assumes "lzma_coder E (internal (lzstream c)) a
             (take (avail_in (lzstream c)) (next_in (lzstream c))) (avail_out (lzstream c)) =
             (lzret, d, k, out)"
      and "lzret = LZMA_OK \<or> lzret = LZMA_STREAM_END"
      and "window_ok (lzstream c) (unxz_buffer c) (xz_buffer_size c)"
      and "length out \<le> avail_out (lzstream c)"
      and "malloc Segment w = (True, w1)"
  shows "lzma_code_turn E a (c, w) =
           (if avail_in (lzstream c) - k \<noteq> 0 then Continue else Done)
             (c\<lparr>lzstream := \<lparr>next_in = drop k (next_in (lzstream c)),
                              avail_in = avail_in (lzstream c) - k, next_out = 0,
                              avail_out = xz_buffer_size c, internal = d\<rparr>,
                unxz_buffer := write_at (unxz_buffer c) (next_out (lzstream c)) out,
                memory_istream :=
                  memory_istream c @ [written (lzstream c) (unxz_buffer c) @ out]\<rparr>, w1)"
proof -
  from assms(3,4) have le: "next_out (lzstream c) + length out \<le> length (unxz_buffer c)"
    and cur: "xz_buffer_size c - (avail_out (lzstream c) - length out) =
                next_out (lzstream c) + length out"
    unfolding window_ok_def by auto
  from assms(2,5) show ?thesis
    by (simp add: turn_unfold[OF assms(1)] Let_def cur take_write_at[OF le] written_def)
qed





section \<open>Empty segments\<close>

lemma payload_if [simp]: "payload ((if b then Continue else Done) x) = x"
  by simp

text \<open>
  Claim C4 says that a drain with the write cursor at 0 appends no segment. Here the
  final run with \<^verbatim>\<open>LZMA_FINISH\<close> starts from a fresh window, the decoder writes
  nothing, and an empty segment is appended.
\<close>

theorem empty_segment_counterexample:
  "toy_coder ([], []) LZMA_FINISH [] 4 = (LZMA_STREAM_END, ([], []), 0, []) \<and>
   memory_istream small_context = [] \<and>
   gdk_pixbuf__lzma_code toy_externals small_context [] LZMA_FINISH small_world =
     Some (True, small_context\<lparr>memory_istream := [[]]\<rparr>, ended_world)"
  by (simp add: gdk_pixbuf__lzma_code_def lzma_code_loop.simps lzma_code_turn_def lzma_code_def
      toy_externals_def toy_coder_def small_context_def small_world_def ended_world_def
      malloc_def acquire_def write_at_def Let_def)

text \<open>
  Claim C4 as amended. A drain appends one segment whatever the write cursor is; with
  the cursor at 0 the segment is empty, and the accumulated byte sequence is unchanged.
  In the incremental loop this happens after every call of \<^verbatim>\<open>lzma_code\<close> that succeeds
  and finds nothing written; in the one-shot loop a window with nothing written is
  drained only when the decoder reports the end of the stream, and is left alone
  otherwise.
\<close>

theorem drain_at_cursor_zero_appends_empty_segment:
  "(lzma_code (lzma_coder E) (lzstream c) (unxz_buffer c) a = (lzret, strm, buf) \<and>
    (lzret = LZMA_OK \<or> lzret = LZMA_STREAM_END) \<and>
    xz_buffer_size c - avail_out strm = 0 \<and>
    malloc Segment w = (True, w1) \<and> payload (lzma_code_turn E a (c, w)) = (c', w') \<longrightarrow>
      memory_istream c' = memory_istream c @ [[]] \<and>
      concat (memory_istream c') = concat (memory_istream c)) \<and>
   (n - avail_out (ld_lzstream l) = 0 \<and> 0 < n \<and> malloc Segment w = (True, w1) \<longrightarrow>
      load_drain n LZMA_STREAM_END (l, w) =
        Inr (l\<lparr>ld_memory_istream := ld_memory_istream l @ [[]],
               ld_lzstream := (ld_lzstream l)\<lparr>next_out := 0, avail_out := n\<rparr>\<rparr>, w1) \<and>
      (lzret \<noteq> LZMA_STREAM_END \<longrightarrow> load_drain n lzret (l, w) = Inr (l, w)))"
proof (intro conjI impI, goal_cases)
  case 1
  then have lz: "lzma_code (lzma_coder E) (lzstream c) (unxz_buffer c) a = (lzret, strm, buf)"
    and ok: "lzret = LZMA_OK \<or> lzret = LZMA_STREAM_END"
    and z: "xz_buffer_size c - avail_out strm = 0"
    and m: "malloc Segment w = (True, w1)"
    and p: "payload (lzma_code_turn E a (c, w)) = (c', w')" by blast+
  from p show ?case by (auto simp: turn_drain[OF lz ok m] z)
next
  case 2
  then have lz: "lzma_code (lzma_coder E) (lzstream c) (unxz_buffer c) a = (lzret, strm, buf)"
    and ok: "lzret = LZMA_OK \<or> lzret = LZMA_STREAM_END"
    and z: "xz_buffer_size c - avail_out strm = 0"
    and m: "malloc Segment w = (True, w1)"
    and p: "payload (lzma_code_turn E a (c, w)) = (c', w')" by blast+
  from p show ?case by (auto simp: turn_drain[OF lz ok m] z)
next
  case 3
  then show ?case by (simp add: load_drain_def Let_def)
next
  case 4
  then show ?case by (auto simp: load_drain_def Let_def)
qed

theorem drain_at_cursor_zero_appends_empty_segment_witness:
  "lzma_code (lzma_coder toy_externals) (lzstream small_context) (unxz_buffer small_context)
     LZMA_FINISH = (LZMA_STREAM_END, lzstream small_context, unxz_buffer small_context) \<and>
   xz_buffer_size small_context - avail_out (lzstream small_context) = 0 \<and>
   malloc Segment small_world = (True, ended_world) \<and>
   payload (lzma_code_turn toy_externals LZMA_FINISH (small_context, small_world)) =
     (small_context\<lparr>memory_istream := [[]]\<rparr>, ended_world) \<and>
   memory_istream (small_context\<lparr>memory_istream := [[]]\<rparr>) = memory_istream small_context @ [[]] \<and>
   4 - avail_out (ld_lzstream small_locals) = 0 \<and>
   load_drain 4 LZMA_STREAM_END (small_locals, small_world) =
     Inr (small_locals\<lparr>ld_memory_istream := ld_memory_istream small_locals @ [[]],
                        ld_lzstream := (ld_lzstream small_locals)\<lparr>next_out := 0, avail_out := 4\<rparr>\<rparr>,
          ended_world) \<and>
   load_drain 4 LZMA_OK (small_locals, small_world) = Inr (small_locals, small_world)"
proof -
  have 1: "lzma_code (lzma_coder toy_externals) (lzstream small_context) (unxz_buffer small_context)
     LZMA_FINISH = (LZMA_STREAM_END, lzstream small_context, unxz_buffer small_context)"
    by (simp add: lzma_code_def toy_externals_def toy_coder_def small_context_def write_at_def)
  have 2: "xz_buffer_size small_context - avail_out (lzstream small_context) = 0"
    by (simp add: small_context_def)
  have 3: "malloc Segment small_world = (True, ended_world)"
    by (simp add: malloc_def small_world_def ended_world_def acquire_def)
  have 4: "payload (lzma_code_turn toy_externals LZMA_FINISH (small_context, small_world)) =
     (small_context\<lparr>memory_istream := [[]]\<rparr>, ended_world)"
    by (simp add: lzma_code_turn_def lzma_code_def toy_externals_def toy_coder_def small_context_def
        small_world_def ended_world_def malloc_def acquire_def write_at_def Let_def)
  have 5: "4 - avail_out (ld_lzstream small_locals) = 0" "(0::nat) < 4"
    "LZMA_OK \<noteq> LZMA_STREAM_END"
    by (simp_all add: small_locals_def)
  note th = drain_at_cursor_zero_appends_empty_segment[of toy_externals small_context LZMA_FINISH
      LZMA_STREAM_END "lzstream small_context" "unxz_buffer small_context" small_world ended_world
      "small_context\<lparr>memory_istream := [[]]\<rparr>" ended_world 4 small_locals]
  note th2 = drain_at_cursor_zero_appends_empty_segment[where n = 4 and l = small_locals
      and w = small_world and ?w1.0 = ended_world and lzret = LZMA_OK]
  from th 1 2 3 4
  have "memory_istream (small_context\<lparr>memory_istream := [[]]\<rparr>) = memory_istream small_context @ [[]]"
    by blast
  moreover from th 3 5
  have "load_drain 4 LZMA_STREAM_END (small_locals, small_world) =
     Inr (small_locals\<lparr>ld_memory_istream := ld_memory_istream small_locals @ [[]],
                        ld_lzstream := (ld_lzstream small_locals)\<lparr>next_out := 0, avail_out := 4\<rparr>\<rparr>,
          ended_world)" by blast
  moreover from th2 3 5
  have "load_drain 4 LZMA_OK (small_locals, small_world) = Inr (small_locals, small_world)"
    by blast
  ultimately show ?thesis using 1 2 3 4 5(1) by blast
qed

section \<open>A failed final run of the decoder\<close>

text \<open>
  \<^verbatim>\<open>stop_load\<close> keeps the result of the final run of the decoder in \<^verbatim>\<open>ret\<close> and
  reads it again only to return it. When the final run fails and the bytes accumulated
  before it decode as an image, the image is decoded, the callbacks are invoked as in
  a session that succeeds, and \<^verbatim>\<open>FALSE\<close> is returned.
\<close>

lemma stop_load_after_failed_flush:
  assumes "gdk_pixbuf__lzma_code E c [] LZMA_FINISH w = Some (False, c1, w1)"
      and "pixbuf_new_from_stream E (concat (memory_istream c1)) = Inr p"
      and "gdk_pixbuf__stop_load_xz_image E c w = Some (Inr (ret, w'))"
  shows "\<not> ret \<and> gerror w' = gerror w1 \<and>
         calls w' = calls w @
           (case prepare_func c of None \<Rightarrow> [] | Some f \<Rightarrow> [Prepare_call f p (extra_context c)]) @
           (case updated_func c of None \<Rightarrow> []
            | Some g \<Rightarrow> [Updated_call g p 0 0 (pixbuf_width p) (pixbuf_height p) (extra_context c)])"
  using stop_load_result[OF assms(1,3)] assms(2) by simp

text \<open>
  Claim C6 says that after a decompression error the session does not go on to the
  image decode and never ends in a failure with the callbacks invoked. In
  \<^verbatim>\<open>stop_load\<close> nothing stands between the final run of the decoder and the image
  decode: the result of the run is not tested before \<^verbatim>\<open>gdk_pixbuf_new_from_stream\<close>
  and the callbacks, where the one-shot loader leaves by \<^verbatim>\<open>goto failure\<close>.

  In the first session below the chunk \<open>[1, 2, 0, 255]\<close> is a whole stream followed by
  a byte that is not valid. \<^verbatim>\<open>load_increment\<close> appends the bytes 1 and 2, meets the
  error and returns \<^verbatim>\<open>FALSE\<close>. In \<^verbatim>\<open>stop_load\<close> the final run of the decoder fails
  too; the image is decoded from the bytes 1 and 2, the prepared and the updated
  callback are invoked, and \<^verbatim>\<open>FALSE\<close> is returned with the error set. The one-shot
  loader returns \<^verbatim>\<open>NULL\<close> on the same bytes. In the second session the bytes 1 and 2
  have been accumulated and the allocation of the last segment fails in the final run,
  with the same outcome.
\<close>

theorem stop_load_decodes_after_failed_flush:
  "gdk_pixbuf__load_xz_image_increment framed_externals framed_context [1, 2, 0, 255] small_world =
     Some (Inr (False, garbled_context, garbled_world)) \<and>
   gdk_pixbuf__lzma_code framed_externals garbled_context [] LZMA_FINISH garbled_world =
     Some (False,
           garbled_context\<lparr>lzstream := (lzstream garbled_context)\<lparr>next_in := [], avail_in := 0\<rparr>\<rparr>,
           garbled_world) \<and>
   gdk_pixbuf__stop_load_xz_image framed_externals garbled_context garbled_world =
     Some (Inr (False,
       \<lparr>mallocs = [], live = [Segment, Segment, Segment, Memory_istream],
        gerror = Some ''Error with lzma decode'',
        calls = [Prepare_call 3 \<lparr>pixbuf_width = 2, pixbuf_height = 1\<rparr> 7,
                 Updated_call 2 \<lparr>pixbuf_width = 2, pixbuf_height = 1\<rparr> 0 0 2 1 7],
        closed = True\<rparr>)) \<and>
   gdk_pixbuf__load_xz_image framed_externals
     \<lparr>unread = [1, 2, 0, 255], faulty = False, feof = False, ferror = False\<rparr> empty_world =
     Some (None, \<lparr>mallocs = [], live = [Memory_istream, Lzma_internal],
                  gerror = Some ''Some LZMA error occurred'', calls = [], closed = True\<rparr>) \<and>
   gdk_pixbuf__lzma_code toy_externals loaded_context [] LZMA_FINISH
     (loaded_world\<lparr>mallocs := [False]\<rparr>) =
     Some (False, loaded_context, loaded_world\<lparr>gerror := Some ''Error allocating buffer''\<rparr>) \<and>
   gdk_pixbuf__stop_load_xz_image toy_externals loaded_context (loaded_world\<lparr>mallocs := [False]\<rparr>) =
     Some (Inr (False,
       \<lparr>mallocs = [], live = [Segment, Segment, Memory_istream],
        gerror = Some ''Error allocating buffer'',
        calls = [Prepare_call 3 \<lparr>pixbuf_width = 2, pixbuf_height = 1\<rparr> 7,
                 Updated_call 2 \<lparr>pixbuf_width = 2, pixbuf_height = 1\<rparr> 0 0 2 1 7],
        closed = True\<rparr>))"
proof (intro conjI, goal_cases)
  case 1
  show ?case
    by (simp add: gdk_pixbuf__load_xz_image_increment_def gdk_pixbuf__lzma_code_def
        lzma_code_loop.simps lzma_code_turn_def lzma_code_def framed_externals_def
        framed_coder_def framed_start_def framed_context_def small_world_def garbled_context_def
        garbled_world_def malloc_def acquire_def write_at_def g_set_error_def Let_def)
next
  case 2
  show ?case
    by (simp add: gdk_pixbuf__lzma_code_def lzma_code_loop.simps lzma_code_turn_def lzma_code_def
        framed_externals_def framed_coder_def framed_context_def small_world_def
        garbled_context_def garbled_world_def write_at_def g_set_error_def Let_def)
next
  case 3
  show ?case
    by (simp add: gdk_pixbuf__stop_load_xz_image_def gdk_pixbuf__lzma_code_def
        lzma_code_loop.simps lzma_code_turn_def lzma_code_def framed_externals_def
        framed_coder_def framed_context_def small_world_def garbled_context_def garbled_world_def
        release_def write_at_def run_callbacks_def g_input_stream_close_def lzma_end_def
        g_set_error_def Let_def)
next
  case 4
  show ?case
    by (simp add: gdk_pixbuf__load_xz_image_def load_xz_image_sized_def load_loop.simps
        load_turn_def load_read_def load_drain_def fread_def lzma_code_def framed_externals_def
        framed_coder_def framed_start_def empty_world_def malloc_def acquire_def release_def
        write_at_def load_failure_def g_set_error_def g_input_stream_close_def lzma_end_def
        Let_def)
next
  case 5
  show ?case
    by (simp add: gdk_pixbuf__lzma_code_def lzma_code_loop.simps lzma_code_turn_def lzma_code_def
        toy_externals_def toy_coder_def small_context_def small_world_def loaded_context_def
        loaded_world_def malloc_def write_at_def g_set_error_def Let_def)
next
  case 6
  show ?case
    by (simp add: gdk_pixbuf__stop_load_xz_image_def gdk_pixbuf__lzma_code_def
        lzma_code_loop.simps lzma_code_turn_def lzma_code_def toy_externals_def toy_coder_def
        small_context_def small_world_def loaded_context_def loaded_world_def malloc_def
        release_def write_at_def run_callbacks_def g_input_stream_close_def lzma_end_def
        g_set_error_def Let_def)
qed

section \<open>The failure exit of the one-shot loader\<close>

text \<open>
  Claim C9 asks that every failure exit of the one-shot loader release what the call
  allocated, as the successful exit does. On a file the decoder rejects, the loader
  returns \<^verbatim>\<open>NULL\<close> with the engine's internal state still allocated: the code after
  the label \<^verbatim>\<open>failure\<close> frees the \<^verbatim>\<open>lzma_stream\<close> without calling \<^verbatim>\<open>lzma_end\<close>. On a
  file that decodes, the successful exit has called \<^verbatim>\<open>lzma_end\<close> and the internal
  state is gone.
\<close>

theorem load_failure_keeps_lzma_internal:
  "gdk_pixbuf__load_xz_image toy_externals corrupt_file empty_world =
     Some (None, \<lparr>mallocs = [], live = [Memory_istream, Lzma_internal],
                  gerror = Some ''Some LZMA error occurred'', calls = [], closed = True\<rparr>) \<and>
   gdk_pixbuf__load_xz_image toy_externals good_file empty_world =
     Some (Some \<lparr>pixbuf_width = 2, pixbuf_height = 1\<rparr>,
           \<lparr>mallocs = [], live = [Pixbuf_ref, Segment, Memory_istream],
            gerror = None, calls = [], closed = True\<rparr>)"
  by (simp add: gdk_pixbuf__load_xz_image_def load_xz_image_sized_def load_loop.simps
      load_turn_def load_read_def load_drain_def fread_def lzma_code_def toy_externals_def
      toy_coder_def empty_world_def corrupt_file_def good_file_def malloc_def acquire_def
      release_def write_at_def load_failure_def g_set_error_def g_input_stream_close_def
      lzma_end_def Let_def)

section \<open>Independence of the chunk boundaries\<close>

lemma decodes_run:
  assumes "decodes coder fed emitted good cap s p" and "good d" and "inp \<noteq> []"
      and "prefix (fed d @ inp) s"
      and "coder d LZMA_RUN inp cap = (lzret, d', k, out)"
  shows "good d' \<and> k \<le> length inp \<and> length out \<le> cap \<and>
         fed d' = fed d @ take k inp \<and> emitted d' = emitted d @ out \<and>
         (lzret = LZMA_OK \<or> lzret = LZMA_STREAM_END) \<and> (0 < k \<or> out \<noteq> [])"
proof -
  note step = assms(1)[unfolded decodes_def, THEN conjunct2, THEN conjunct1, rule_format,
      OF conjI[OF assms(2) conjI[OF assms(3) assms(4)]]]
  from step show ?thesis unfolding assms(5) prod.case .
qed

lemma decodes_finish:
  assumes "decodes coder fed emitted good cap s p" and "good d" and "fed d = s"
      and "coder d LZMA_FINISH [] cap = (lzret, d', k, out)"
  shows "(lzret = LZMA_OK \<or> lzret = LZMA_STREAM_END) \<and> length out \<le> cap \<and>
         prefix (emitted d @ out) p"
proof -
  note step = assms(1)[unfolded decodes_def, THEN conjunct2, THEN conjunct2, rule_format,
      OF conjI[OF assms(2) assms(3)]]
  from step show ?thesis unfolding assms(4) prod.case .
qed

lemma decodes_good:
  assumes "decodes coder fed emitted good cap s p" and "good d"
  shows "prefix (emitted d) p" and "fed d = s \<Longrightarrow> emitted d = p"
proof -
  note g = assms(1)[unfolded decodes_def, THEN conjunct1, rule_format, OF assms(2)]
  from g show "prefix (emitted d) p" by (rule conjunct1)
  from g show "fed d = s \<Longrightarrow> emitted d = p" by simp
qed

lemma loop_total:
  assumes dec: "decodes (lzma_coder E) fed emitted good cap s p"
  shows "session_ok fed emitted good cap s c \<Longrightarrow> mallocs w = [] \<Longrightarrow>
         avail_in (lzstream c) = length (next_in (lzstream c)) \<Longrightarrow>
         prefix (fed (internal (lzstream c)) @ next_in (lzstream c)) s \<Longrightarrow>
         next_in (lzstream c) \<noteq> [] \<Longrightarrow>
         \<exists>c' w'. lzma_code_loop E LZMA_RUN (c, w) = Some (True, c', w') \<and>
            session_ok fed emitted good cap s c' \<and> mallocs w' = [] \<and>
            fed (internal (lzstream c')) = fed (internal (lzstream c)) @ next_in (lzstream c)"
proof (induction c arbitrary: w
    rule: wf_induct_rule[OF wf_measures[of "[\<lambda>c. length (next_in (lzstream c)),
                                           \<lambda>c. length p - length (emitted (internal (lzstream c)))]"]])
  case (1 c)
  let ?d = "internal (lzstream c)" and ?inp = "next_in (lzstream c)"
  from "1.prems"(1) have ok: "good ?d" "next_out (lzstream c) = 0"
    "avail_out (lzstream c) = cap" "xz_buffer_size c = cap"
    "length (unxz_buffer c) = cap" "concat (memory_istream c) = emitted ?d"
    unfolding session_ok_def by blast+
  obtain lzret d' k out where
    res: "lzma_coder E ?d LZMA_RUN (take (avail_in (lzstream c)) ?inp) (avail_out (lzstream c)) =
            (lzret, d', k, out)" by (metis prod_cases4)
  with "1.prems"(3) ok(3) have res': "lzma_coder E ?d LZMA_RUN ?inp cap = (lzret, d', k, out)"
    by simp
  from decodes_run[OF dec ok(1) "1.prems"(5) "1.prems"(4) res']
  have st: "good d'" "k \<le> length ?inp" "length out \<le> cap"
    "fed d' = fed ?d @ take k ?inp" "emitted d' = emitted ?d @ out"
    "lzret = LZMA_OK \<or> lzret = LZMA_STREAM_END" "0 < k \<or> out \<noteq> []"
    by blast+
  have m: "malloc Segment w = (True, acquire Segment w)"
    by (rule malloc_empty_tape[OF "1.prems"(2)])
  have win: "window_ok (lzstream c) (unxz_buffer c) (xz_buffer_size c)"
    using ok by (simp add: window_ok_def)
  from st(3) ok(3) have bound: "length out \<le> avail_out (lzstream c)" by simp
  define c2 where "c2 = c\<lparr>lzstream := \<lparr>next_in = drop k ?inp,
                              avail_in = avail_in (lzstream c) - k, next_out = 0,
                              avail_out = xz_buffer_size c, internal = d'\<rparr>,
                unxz_buffer := write_at (unxz_buffer c) (next_out (lzstream c)) out,
                memory_istream := memory_istream c @ [written (lzstream c) (unxz_buffer c) @ out]\<rparr>"
  have turn: "lzma_code_turn E LZMA_RUN (c, w) =
      (if avail_in (lzstream c) - k \<noteq> 0 then Continue else Done) (c2, acquire Segment w)"
    unfolding c2_def
    by (rule turn_drained[OF res st(6) win bound m])
  have pre2: "prefix (fed d' @ drop k ?inp) s"
    using "1.prems"(4) st(4) by simp
  then have pf: "prefix (fed d') s" by (rule append_prefixD)
  from pf st(1,5) ok(4,5) st(3) ok(2,6) have ok2: "session_ok fed emitted good cap s c2"
    by (simp add: session_ok_def c2_def written_def length_write_at)
  have in2: "avail_in (lzstream c2) = length (next_in (lzstream c2))"
    using "1.prems"(3) by (simp add: c2_def)
  have fed2: "fed (internal (lzstream c2)) = fed ?d @ take k ?inp"
    and nin2: "next_in (lzstream c2) = drop k ?inp"
    and em2: "emitted (internal (lzstream c2)) = emitted ?d @ out"
    using st(4,5) by (simp_all add: c2_def)
  show ?case
  proof (cases "avail_in (lzstream c) - k \<noteq> 0")
    case True
    with "1.prems"(3) have lt: "k < length ?inp" by simp
    then have ne: "?inp \<noteq> []" by auto
    from lt have ne2: "next_in (lzstream c2) \<noteq> []" by (simp add: nin2)
    from prefix_length_le[OF decodes_good(1)[OF dec st(1)]] st(5)
    have le: "length (emitted ?d) + length out \<le> length p" by simp
    from st(7) have "0 < k \<or> 0 < length out" by simp
    then have "length (next_in (lzstream c2)) < length ?inp \<or>
               length (next_in (lzstream c2)) = length ?inp \<and>
               length p - length (emitted (internal (lzstream c2))) < length p - length (emitted ?d)"
    proof
      assume "0 < k"
      with lt have "length (next_in (lzstream c2)) < length ?inp" by (simp add: nin2)
      then show ?thesis ..
    next
      assume o: "0 < length out"
      show ?thesis
      proof (cases "0 < k")
        case True
        with lt have "length (next_in (lzstream c2)) < length ?inp" by (simp add: nin2)
        then show ?thesis ..
      next
        case False
        then have "length (next_in (lzstream c2)) = length ?inp" by (simp add: nin2)
        moreover from o le
        have "length p - (length (emitted ?d) + length out) < length p - length (emitted ?d)"
          by arith
        then have "length p - length (emitted (internal (lzstream c2))) <
                   length p - length (emitted ?d)"
          by (simp only: em2 length_append)
        ultimately show ?thesis by blast
      qed
    qed
    then have dec_m: "(c2, c) \<in> measures [\<lambda>c. length (next_in (lzstream c)),
                                           \<lambda>c. length p - length (emitted (internal (lzstream c)))]"
      by simp
    have pre2': "prefix (fed (internal (lzstream c2)) @ next_in (lzstream c2)) s"
      using pre2 st(4) by (simp add: nin2 fed2)
    have mw: "mallocs (acquire Segment w) = []" using "1.prems"(2) by simp
    from "1.IH"[OF dec_m ok2 mw in2 pre2' ne2]
    obtain c' w' where r: "lzma_code_loop E LZMA_RUN (c2, acquire Segment w) = Some (True, c', w')"
      "session_ok fed emitted good cap s c'" "mallocs w' = []"
      "fed (internal (lzstream c')) = fed (internal (lzstream c2)) @ next_in (lzstream c2)"
      by blast
    have "lzma_code_loop E LZMA_RUN (c, w) = lzma_code_loop E LZMA_RUN (c2, acquire Segment w)"
      using True by (subst lzma_code_loop.simps) (simp add: turn)
    with r(1) have "lzma_code_loop E LZMA_RUN (c, w) = Some (True, c', w')" by simp
    moreover from r(4) have "fed (internal (lzstream c')) = fed ?d @ ?inp"
      by (simp add: fed2 nin2)
    ultimately show ?thesis using r(2,3) by blast
  next
    case False
    with "1.prems"(3) st(2) have k: "k = length ?inp" by simp
    have "lzma_code_loop E LZMA_RUN (c, w) = Some (True, c2, acquire Segment w)"
      using False by (subst lzma_code_loop.simps) (simp add: turn)
    moreover from k have "fed (internal (lzstream c2)) = fed ?d @ ?inp"
      by (simp add: fed2)
    moreover have "mallocs (acquire Segment w) = []" using "1.prems"(2) by simp
    ultimately show ?thesis using ok2 by blast
  qed
qed

lemma same_session_context_live:
  assumes "same_session (c, w) (c', w')" and "Context \<in> set (live w)"
  shows "Context \<in> set (live w')"
proof -
  from assms(1) have "filter (\<lambda>r. r \<noteq> Segment) (live w') = filter (\<lambda>r. r \<noteq> Segment) (live w)"
    by (simp add: same_session_def)
  moreover from assms(2) have "Context \<in> set (filter (\<lambda>r. r \<noteq> Segment) (live w))" by simp
  ultimately have "Context \<in> set (filter (\<lambda>r. r \<noteq> Segment) (live w'))" by simp
  then show ?thesis by simp
qed

lemma lzma_code_total:
  assumes dec: "decodes (lzma_coder E) fed emitted good cap s p"
      and ok: "session_ok fed emitted good cap s c"
      and tape: "mallocs w = []"
      and pre: "prefix (fed (internal (lzstream c)) @ buf) s"
      and ne: "buf \<noteq> []"
  shows "\<exists>c' w'. gdk_pixbuf__lzma_code E c buf LZMA_RUN w = Some (True, c', w') \<and>
           session_ok fed emitted good cap s c' \<and> mallocs w' = [] \<and>
           fed (internal (lzstream c')) = fed (internal (lzstream c)) @ buf"
proof -
  let ?c = "c\<lparr>lzstream := (lzstream c)\<lparr>next_in := buf, avail_in := length buf\<rparr>\<rparr>"
  from ok have ok': "session_ok fed emitted good cap s ?c" by (simp add: session_ok_def)
  have 1: "avail_in (lzstream ?c) = length (next_in (lzstream ?c))" by simp
  from pre have 2: "prefix (fed (internal (lzstream ?c)) @ next_in (lzstream ?c)) s" by simp
  from ne have 3: "next_in (lzstream ?c) \<noteq> []" by simp
  from loop_total[OF dec ok' tape 1 2 3] show ?thesis
    by (simp add: gdk_pixbuf__lzma_code_def)
qed

lemma flush_total:
  assumes dec: "decodes (lzma_coder E) fed emitted good cap s p"
      and ok: "session_ok fed emitted good cap s c"
      and tape: "mallocs w = []"
      and fs: "fed (internal (lzstream c)) = s"
  shows "\<exists>c' w'. gdk_pixbuf__lzma_code E c [] LZMA_FINISH w = Some (True, c', w') \<and>
           concat (memory_istream c') = p"
proof -
  define c0 where "c0 = c\<lparr>lzstream := (lzstream c)\<lparr>next_in := [], avail_in := length ([] :: byte list)\<rparr>\<rparr>"
  let ?d = "internal (lzstream c)"
  from ok have g: "good ?d" and no: "next_out (lzstream c) = 0"
    and ao: "avail_out (lzstream c) = cap" and sz: "xz_buffer_size c = cap"
    and len: "length (unxz_buffer c) = cap" and acc: "concat (memory_istream c) = emitted ?d"
    unfolding session_ok_def by blast+
  obtain lzret d' k out where
    res: "lzma_coder E ?d LZMA_FINISH [] cap = (lzret, d', k, out)" by (metis prod_cases4)
  from decodes_finish[OF dec g fs res]
  have st: "lzret = LZMA_OK \<or> lzret = LZMA_STREAM_END" "length out \<le> cap"
    "prefix (emitted ?d @ out) p" by blast+
  from decodes_good(2)[OF dec g fs] have em: "emitted ?d = p" .
  from prefix_length_le[OF st(3)] em have out: "out = []" by simp
  have res0: "lzma_coder E (internal (lzstream c0)) LZMA_FINISH
                (take (avail_in (lzstream c0)) (next_in (lzstream c0))) (avail_out (lzstream c0)) =
                (lzret, d', k, out)"
    using res ao by (simp add: c0_def)
  have win: "window_ok (lzstream c0) (unxz_buffer c0) (xz_buffer_size c0)"
    using no ao sz len by (simp add: window_ok_def c0_def)
  have bound: "length out \<le> avail_out (lzstream c0)" using out by simp
  have m: "malloc Segment w = (True, acquire Segment w)" by (rule malloc_empty_tape[OF tape])
  define c2 where "c2 = c0\<lparr>lzstream := \<lparr>next_in = drop k (next_in (lzstream c0)),
                              avail_in = avail_in (lzstream c0) - k, next_out = 0,
                              avail_out = xz_buffer_size c0, internal = d'\<rparr>,
                unxz_buffer := write_at (unxz_buffer c0) (next_out (lzstream c0)) out,
                memory_istream := memory_istream c0 @ [written (lzstream c0) (unxz_buffer c0) @ out]\<rparr>"
  have turn: "lzma_code_turn E LZMA_FINISH (c0, w) =
      (if avail_in (lzstream c0) - k \<noteq> 0 then Continue else Done) (c2, acquire Segment w)"
    unfolding c2_def by (rule turn_drained[OF res0 st(1) win bound m])
  have z: "avail_in (lzstream c0) - k = 0" by (simp add: c0_def)
  have "lzma_code_loop E LZMA_FINISH (c0, w) = Some (True, c2, acquire Segment w)"
    by (subst lzma_code_loop.simps) (simp add: turn z)
  then have run: "gdk_pixbuf__lzma_code E c [] LZMA_FINISH w = Some (True, c2, acquire Segment w)"
    by (simp add: gdk_pixbuf__lzma_code_def c0_def)
  have "concat (memory_istream c2) = p"
    using acc em out no by (simp add: c2_def c0_def written_def)
  with run show ?thesis by blast
qed

lemma push_chunks_total:
  assumes dec: "decodes (lzma_coder E) fed emitted good cap s p"
  shows "session_ok fed emitted good cap s c \<Longrightarrow> mallocs w = [] \<Longrightarrow> Context \<in> set (live w) \<Longrightarrow>
         prefix (fed (internal (lzstream c)) @ concat bufs) s \<Longrightarrow> [] \<notin> set bufs \<Longrightarrow>
         \<exists>c' w'. push_chunks E c bufs w = Some (Inr (True, c', w')) \<and>
           session_ok fed emitted good cap s c' \<and> mallocs w' = [] \<and> Context \<in> set (live w') \<and>
           fed (internal (lzstream c')) = fed (internal (lzstream c)) @ concat bufs"
proof (induction bufs arbitrary: c w)
  case Nil
  then show ?case by simp
next
  case (Cons buf bufs)
  from Cons.prems(4) have pre: "prefix (fed (internal (lzstream c)) @ buf) s"
    by (metis append_prefixD append.assoc concat.simps(2))
  from Cons.prems(5) have ne: "buf \<noteq> []" by auto
  from lzma_code_total[OF dec Cons.prems(1,2) pre ne]
  obtain c1 w1 where
    r: "gdk_pixbuf__lzma_code E c buf LZMA_RUN w = Some (True, c1, w1)"
    and ok1: "session_ok fed emitted good cap s c1" and t1: "mallocs w1 = []"
    and f1: "fed (internal (lzstream c1)) = fed (internal (lzstream c)) @ buf" by blast
  from same_session_context_live[OF lzma_code_same_session[OF r] Cons.prems(3)]
  have l1: "Context \<in> set (live w1)" .
  from Cons.prems(4) f1 have pre1: "prefix (fed (internal (lzstream c1)) @ concat bufs) s" by simp
  from Cons.prems(5) have ne1: "[] \<notin> set bufs" by simp
  from Cons.IH[OF ok1 t1 l1 pre1 ne1] obtain c' w' where
    r': "push_chunks E c1 bufs w1 = Some (Inr (True, c', w'))"
    and rest: "session_ok fed emitted good cap s c'" "mallocs w' = []" "Context \<in> set (live w')"
      "fed (internal (lzstream c')) = fed (internal (lzstream c1)) @ concat bufs" by blast
  from r Cons.prems(3) have "gdk_pixbuf__load_xz_image_increment E c buf w = Some (Inr (True, c1, w1))"
    by (simp add: increment_Inr)
  with r' have "push_chunks E c (buf # bufs) w = Some (Inr (True, c', w'))" by simp
  with rest f1 show ?case by simp
qed

lemma begin_load_total:
  assumes "lzma_stream_decoder E = (LZMA_OK, d0)" and "mallocs w = []"
  shows "\<exists>w1. gdk_pixbuf__begin_load_xz_image E sf pf uf x w =
           (Some \<lparr>size_func = sf, updated_func = uf, prepare_func = pf,
                lzstream = \<lparr>next_in = [], avail_in = 0, next_out = 0, avail_out = 2 ^ 16, internal = d0\<rparr>,
                unxz_buffer = malloc_bytes (2 ^ 16), xz_buffer_size = 2 ^ 16,
                extra_context = x, pixbuf = None, memory_istream = []\<rparr>, w1) \<and>
           mallocs w1 = [] \<and> Context \<in> set (live w1)"
  using assms by (simp add: gdk_pixbuf__begin_load_xz_image_def malloc_empty_tape)

lemma accumulated_total:
  assumes dec: "decodes (lzma_coder E) fed emitted good (2 ^ 16) s p"
      and sd: "lzma_stream_decoder E = (LZMA_OK, d0)"
      and d0: "good d0" "fed d0 = []" "emitted d0 = []"
      and tape: "mallocs w = []"
      and split: "concat bufs = s" "[] \<notin> set bufs"
  shows "accumulated E sf pf uf x bufs w = Some p"
proof -
  let ?c0 = "\<lparr>size_func = sf, updated_func = uf, prepare_func = pf,
                lzstream = \<lparr>next_in = [], avail_in = 0, next_out = 0, avail_out = 2 ^ 16, internal = d0\<rparr>,
                unxz_buffer = malloc_bytes (2 ^ 16), xz_buffer_size = 2 ^ 16,
                extra_context = x, pixbuf = None, memory_istream = []\<rparr>"
  from begin_load_total[OF sd tape] obtain w1 where
    b: "gdk_pixbuf__begin_load_xz_image E sf pf uf x w = (Some ?c0, w1)"
    and t1: "mallocs w1 = []" and l1: "Context \<in> set (live w1)" by blast
  from d0 have ok0: "session_ok fed emitted good (2 ^ 16) s ?c0"
    by (simp add: session_ok_def length_malloc_bytes)
  from split(1) d0(2) have pre0: "prefix (fed (internal (lzstream ?c0)) @ concat bufs) s" by simp
  from push_chunks_total[OF dec ok0 t1 l1 pre0 split(2)] obtain c1 w2 where
    p: "push_chunks E ?c0 bufs w1 = Some (Inr (True, c1, w2))"
    and ok1: "session_ok fed emitted good (2 ^ 16) s c1" and t2: "mallocs w2 = []"
    and f1: "fed (internal (lzstream c1)) = fed (internal (lzstream ?c0)) @ concat bufs" by blast
  from f1 split(1) d0(2) have fs: "fed (internal (lzstream c1)) = s" by simp
  from flush_total[OF dec ok1 t2 fs] obtain c2 w3 where
    f: "gdk_pixbuf__lzma_code E c1 [] LZMA_FINISH w2 = Some (True, c2, w3)"
    and acc: "concat (memory_istream c2) = p" by blast
  with b p show ?thesis by (simp add: accumulated_def)
qed

subsection \<open>The concatenated decoder meets the contract\<close>

text \<open>
  The decoder \<open>framed_coder\<close> is not an obliging one. Under \<^verbatim>\<open>LZMA_RUN\<close> it never
  reports the end of the stream; a second call in a row that cannot make progress, be
  it the call with \<^verbatim>\<open>LZMA_FINISH\<close>, gets \<^verbatim>\<open>LZMA_BUF_ERROR\<close>; and \<^verbatim>\<open>LZMA_RUN\<close> after
  \<^verbatim>\<open>LZMA_FINISH\<close> gets \<^verbatim>\<open>LZMA_PROG_ERROR\<close>.
\<close>

lemma framed_coder_out_of_sequence:
  "phase d = Running \<Longrightarrow> fst (framed_coder d LZMA_RUN inp n) \<noteq> LZMA_STREAM_END"
  "phase d = Running \<Longrightarrow> idle d \<Longrightarrow> fst (framed_coder d LZMA_RUN [] n) = LZMA_BUF_ERROR"
  "phase d = Running \<Longrightarrow> idle d \<Longrightarrow> eaten d = [] \<or> last (eaten d) \<noteq> 0 \<Longrightarrow>
     fst (framed_coder d LZMA_FINISH [] n) = LZMA_BUF_ERROR"
  "phase d = Finishing \<Longrightarrow> fst (framed_coder d LZMA_RUN inp n) = LZMA_PROG_ERROR"
  "phase d = Broken \<Longrightarrow> fst (framed_coder d action inp n) = LZMA_PROG_ERROR"
  by (auto simp: framed_coder_def Let_def split: list.splits)

text \<open>
  It meets the contract for every stream that is valid in its format: one that has no
  byte 255 and ends with the byte 0. Such a stream is decoded to its bytes other than
  0.
\<close>

lemma framed_decodes:
  assumes "255 \<notin> set s" and "s \<noteq> []" and "last s = 0" and "0 < cap"
  shows "decodes framed_coder eaten given
           (\<lambda>d. phase d = Running \<and> prefix (eaten d) s \<and>
                 given d = filter (\<lambda>b. b \<noteq> 0) (eaten d))
           cap s (filter (\<lambda>b. b \<noteq> 0) s)"
  unfolding decodes_def
proof (intro conjI allI impI, goal_cases)
  case (1 d)
  then show ?case by (simp add: filter_mono_prefix)
next
  case (2 d)
  then show ?case by simp
next
  case (3 d inp)
  then have g: "phase d = Running" "prefix (eaten d) s" "given d = filter (\<lambda>b. b \<noteq> 0) (eaten d)"
    and ne: "inp \<noteq> []" and pre: "prefix (eaten d @ inp) s" by simp_all
  from ne obtain b rest where Cons: "inp = b # rest" by (cases inp) auto
  with pre have p1: "prefix ((eaten d @ [b]) @ rest) s" by simp
  then have p2: "prefix (eaten d @ [b]) s" by (rule append_prefixD)
  then have "b \<in> set s" by (metis in_set_conv_decomp prefix_def append.assoc append_Cons append_Nil)
  with assms(1) have "b \<noteq> 255" by auto
  with Cons g p2 assms(4) show ?case by (auto simp: framed_coder_def Let_def)
next
  case (4 d)
  with assms(2,3) show ?case by (auto simp: framed_coder_def Let_def)
qed

subsection \<open>Any two ways of cutting the stream\<close>

text \<open>
  Claim C1. Let the decoder decode the stream \<open>s\<close> to the bytes \<open>p\<close> in the calls the
  loader makes, starting from the state \<^verbatim>\<open>lzma_stream_decoder\<close> yields, and let no
  allocation fail. Then for any two ways of cutting \<open>s\<close> into non-empty chunks, passing
  the chunks in order to \<^verbatim>\<open>load_increment\<close> and then finishing accumulates the same
  bytes, namely \<open>p\<close>.
\<close>

theorem chunking_invariance:
  assumes "decodes (lzma_coder E) fed emitted good (2 ^ 16) s p"
      and "lzma_stream_decoder E = (LZMA_OK, d0)" and "good d0" and "fed d0 = []"
      and "emitted d0 = []"
      and "mallocs w = []"
      and "concat bufs1 = s" and "[] \<notin> set bufs1"
      and "concat bufs2 = s" and "[] \<notin> set bufs2"
  shows "accumulated E sf pf uf x bufs1 w = accumulated E sf pf uf x bufs2 w \<and>
         accumulated E sf pf uf x bufs1 w = Some p"
  using accumulated_total[OF assms(1-6) assms(7,8)] accumulated_total[OF assms(1-6) assms(9,10)]
  by simp

theorem chunking_invariance_witness:
  "decodes (lzma_coder framed_externals) eaten given
     (\<lambda>d. phase d = Running \<and> prefix (eaten d) [1, 2, 3, 0] \<and>
           given d = filter (\<lambda>b. b \<noteq> 0) (eaten d))
     (2 ^ 16) [1, 2, 3, 0] [1, 2, 3] \<and>
   lzma_stream_decoder framed_externals = (LZMA_OK, framed_start) \<and>
   phase framed_start = Running \<and> eaten framed_start = [] \<and> given framed_start = [] \<and>
   mallocs empty_world = [] \<and>
   concat [[1], [2, 3, 0]] = [1, 2, 3, 0 :: byte] \<and>
   concat [[1, 2, 3, 0]] = [1, 2, 3, 0 :: byte] \<and>
   accumulated framed_externals None None None 0 [[1], [2, 3, 0]] empty_world =
     accumulated framed_externals None None None 0 [[1, 2, 3, 0]] empty_world \<and>
   accumulated framed_externals None None None 0 [[1], [2, 3, 0]] empty_world = Some [1, 2, 3]"
proof -
  have "(255 :: byte) \<notin> set [1, 2, 3, 0]" "[1, 2, 3, 0 :: byte] \<noteq> []"
    "last [1, 2, 3, 0 :: byte] = 0" "(0 :: nat) < 2 ^ 16" by simp_all
  from framed_decodes[OF this]
  have 1: "decodes (lzma_coder framed_externals) eaten given
     (\<lambda>d. phase d = Running \<and> prefix (eaten d) [1, 2, 3, 0] \<and>
           given d = filter (\<lambda>b. b \<noteq> 0) (eaten d))
     (2 ^ 16) [1, 2, 3, 0] [1, 2, 3]"
    by (simp add: framed_externals_def)
  have 2: "lzma_stream_decoder framed_externals = (LZMA_OK, framed_start)"
    by (simp add: framed_externals_def)
  have 3: "phase framed_start = Running \<and> prefix (eaten framed_start) [1, 2, 3, 0] \<and>
           given framed_start = filter (\<lambda>b. b \<noteq> 0) (eaten framed_start)"
    by (simp add: framed_start_def)
  have 4: "eaten framed_start = []" "given framed_start = []"
    by (simp_all add: framed_start_def)
  have 5: "mallocs empty_world = []" by (simp add: empty_world_def)
  have 6: "concat [[1], [2, 3, 0]] = [1, 2, 3, 0 :: byte]" "[] \<notin> set [[1], [2, 3, 0 :: byte]]"
    "concat [[1, 2, 3, 0]] = [1, 2, 3, 0 :: byte]" "[] \<notin> set [[1, 2, 3, 0 :: byte]]" by simp_all
  from chunking_invariance[OF 1 2 3 4 5 6, of None None None 0] 1 2 3 4 5 6 show ?thesis by blast
qed

end
